theory Spec2Isabelle
  imports Main "HOL-Library.Char_ord" "HOL-Library.List_Lexorder" "HOL-Library.Multiset"
begin

section \<open>Python values and JSON documents\<close>

text \<open>
  The entries a module extracts are arbitrary Python objects. The model keeps the shapes
  that \<^verbatim>\<open>mvt/common/module.py\<close> can tell apart: \<open>None\<close>, booleans, integers, strings,
  lists, tuples, dictionaries keyed by strings, and \<open>PObj s\<close> for any other object
  (a \<open>datetime\<close>, say), of which the code only ever uses \<open>str()\<close>, here \<open>s\<close>.
  Floats are left out. A dictionary is an association list in insertion order; Python
  keeps its keys distinct (\<open>wf_pyval\<close>).
\<close>

datatype pyval =
    PNone
  | PBool bool
  | PInt int
  | PStr string
  | PList "pyval list"
  | PTuple "pyval list"
  | PDict "(string \<times> pyval) list"
  | PObj string

fun wf_pyval :: "pyval \<Rightarrow> bool" where
  "wf_pyval (PList xs) = list_all wf_pyval xs"
| "wf_pyval (PTuple xs) = list_all wf_pyval xs"
| "wf_pyval (PDict kvs) = (distinct (map fst kvs) \<and> list_all (\<lambda>kv. wf_pyval (snd kv)) kvs)"
| "wf_pyval v = True"

text \<open>Truthiness, as \<^verbatim>\<open>if x:\<close> tests it.\<close>

fun truthy :: "pyval \<Rightarrow> bool" where
  "truthy PNone = False"
| "truthy (PBool b) = b"
| "truthy (PInt i) = (i \<noteq> 0)"
| "truthy (PStr s) = (s \<noteq> [])"
| "truthy (PList xs) = (xs \<noteq> [])"
| "truthy (PTuple xs) = (xs \<noteq> [])"
| "truthy (PDict kvs) = (kvs \<noteq> [])"
| "truthy (PObj s) = True"

text \<open>
  A JSON document. The text that \<open>simplejson\<close> prints and parses is not modelled: a
  document stands for its text, which the library prints deterministically, members in
  the order given, and parses back to the same tree.
\<close>

datatype json =
    JNull
  | JBool bool
  | JInt int
  | JStr string
  | JArr "json list"
  | JObj "(string \<times> json) list"

fun all_some :: "'a option list \<Rightarrow> 'a list option" where
  "all_some [] = Some []"
| "all_some (None # xs) = None"
| "all_some (Some x # xs) = (case all_some xs of None \<Rightarrow> None | Some ys \<Rightarrow> Some (x # ys))"

text \<open>
  \<^verbatim>\<open>json.dumps(v, default=str if d else None, sort_keys=sk)\<close>: \<open>None\<close> is the
  \<open>TypeError\<close> the encoder raises on an object it cannot serialise. Tuples are written
  as arrays; with \<open>default=str\<close> any other object is written as its string; with
  \<open>sort_keys\<close> the members of every object are sorted by key (a stable sort).
\<close>

fun json_encode :: "bool \<Rightarrow> bool \<Rightarrow> pyval \<Rightarrow> json option" where
  "json_encode d sk PNone = Some JNull"
| "json_encode d sk (PBool b) = Some (JBool b)"
| "json_encode d sk (PInt i) = Some (JInt i)"
| "json_encode d sk (PStr s) = Some (JStr s)"
| "json_encode d sk (PList xs) = map_option JArr (all_some (map (json_encode d sk) xs))"
| "json_encode d sk (PTuple xs) = map_option JArr (all_some (map (json_encode d sk) xs))"
| "json_encode d sk (PDict kvs) =
     map_option (\<lambda>vs. JObj ((if sk then sort_key fst else id) (zip (map fst kvs) vs)))
       (all_some (map (\<lambda>kv. json_encode d sk (snd kv)) kvs))"
| "json_encode d sk (PObj s) = (if d then Some (JStr s) else None)"

text \<open>
  Building a \<open>dict\<close> from the members of a parsed object: a repeated key keeps its first
  position and takes the last value.
\<close>

fun dict_set :: "(string \<times> 'v) list \<Rightarrow> string \<Rightarrow> 'v \<Rightarrow> (string \<times> 'v) list" where
  "dict_set [] k v = [(k, v)]"
| "dict_set ((k', v') # kvs) k v =
     (if k' = k then (k, v) # kvs else (k', v') # dict_set kvs k v)"

definition dict_of_items :: "(string \<times> 'v) list \<Rightarrow> (string \<times> 'v) list" where
  "dict_of_items kvs = foldl (\<lambda>d kv. dict_set d (fst kv) (snd kv)) [] kvs"

text \<open>\<^verbatim>\<open>json.loads\<close> / \<^verbatim>\<open>json.load\<close> on a document.\<close>

fun json_decode :: "json \<Rightarrow> pyval" where
  "json_decode JNull = PNone"
| "json_decode (JBool b) = PBool b"
| "json_decode (JInt i) = PInt i"
| "json_decode (JStr s) = PStr s"
| "json_decode (JArr xs) = PList (map json_decode xs)"
| "json_decode (JObj kvs) =
     PDict (dict_of_items (zip (map fst kvs) (map (\<lambda>kv. json_decode (snd kv)) kvs)))"

text \<open>
  The values JSON represents without loss: no tuple and no foreign object anywhere.
\<close>

fun json_native :: "pyval \<Rightarrow> bool" where
  "json_native (PList xs) = list_all json_native xs"
| "json_native (PDict kvs) = list_all (\<lambda>kv. json_native (snd kv)) kvs"
| "json_native (PTuple xs) = False"
| "json_native (PObj s) = False"
| "json_native v = True"

section \<open>Exceptions and the logger\<close>

text \<open>
  The exception classes the module defines or meets. \<open>OtherException\<close> is any other
  class derived from \<open>Exception\<close>; \<open>BaseOnly\<close> is one derived from \<open>BaseException\<close>
  alone (\<open>KeyboardInterrupt\<close>, \<open>SystemExit\<close>), which \<^verbatim>\<open>except Exception\<close> lets pass.
\<close>

datatype exn =
    NotImplementedError
  | InsufficientPrivileges
  | DatabaseNotFoundError
  | DatabaseCorruptedError
  | AttributeError
  | TypeError
  | KeyError
  | OSError
  | JSONDecodeError
  | OtherException string
  | BaseOnly string

fun is_Exception :: "exn \<Rightarrow> bool" where
  "is_Exception (BaseOnly n) = False"
| "is_Exception e = True"

datatype log_level = INFO | ERROR | EXCEPTION

text \<open>The format strings of the source, one constructor each.\<close>

datatype log_msg =
    Loaded_results
  | Running_module
  | Run_not_implemented
  | Insufficient_privileges
  | No_data_to_extract
  | Database_corrupted
  | Error_in_extraction
  | No_indicator_support
  | No_detections
  | Unable_to_store_results

datatype log_arg = AStr string | AInt int | AExn exn

type_synonym log_record = "log_level \<times> log_msg \<times> log_arg list"

section \<open>The module\<close>

text \<open>
  The attributes of an \<open>MVTModule\<close> instance, with the class name and the class
  attribute \<open>slug\<close>. \<open>log\<close> is \<open>None\<close> or the records the logger has taken so far;
  \<open>indicators\<close> is \<open>None\<close> or the path the indicators were loaded from.
\<close>

record module =
  class_name :: string
  slug :: "string option"
  file_path :: "string option"
  base_folder :: "string option"
  output_folder :: "string option"
  fast_mode :: bool
  log :: "log_record list option"
  indicators :: "string option"
  results :: pyval
  detected :: "pyval list"
  timeline :: "pyval list"
  timeline_detected :: "pyval list"

subsection \<open>get_slug\<close>

definition is_upper :: "char \<Rightarrow> bool" where
  "is_upper c = (CHR ''A'' \<le> c \<and> c \<le> CHR ''Z'')"

definition is_lower :: "char \<Rightarrow> bool" where
  "is_lower c = (CHR ''a'' \<le> c \<and> c \<le> CHR ''z'')"

definition is_digit :: "char \<Rightarrow> bool" where
  "is_digit c = (CHR ''0'' \<le> c \<and> c \<le> CHR ''9'')"

text \<open>
  \<^verbatim>\<open>str.lower\<close>. On ASCII text an upper-case letter gets bit 5 set and every other
  character stays. On text with a character outside ASCII Python follows the case tables
  of Unicode, which the model does not hold: \<open>unicode_lower\<close> is left unspecified, so that
  nothing is said about such text.
\<close>

definition is_ascii :: "char \<Rightarrow> bool" where
  "is_ascii c = (c \<le> CHR 0x7F)"

definition lower_char :: "char \<Rightarrow> char" where
  "lower_char c =
     (if is_upper c
      then (case c of Char b0 b1 b2 b3 b4 b5 b6 b7 \<Rightarrow> Char b0 b1 b2 b3 b4 True b6 b7)
      else c)"

definition unicode_lower :: "string \<Rightarrow> string" where
  "unicode_lower = (SOME f. True)"

definition str_lower :: "string \<Rightarrow> string" where
  "str_lower s = (if list_all is_ascii s then map lower_char s else unicode_lower s)"

text \<open>
  \<^verbatim>\<open>re.sub("(.)([A-Z][a-z]+)", r"\1_\2", s)\<close>: scanning from the left, a character other
  than a newline, followed by an upper-case letter and the longest run of lower-case
  letters (at least one), gets an underscore after it; scanning resumes after the run.
\<close>

function re_sub_word :: "string \<Rightarrow> string" where
  "re_sub_word (c # u # l # rest) =
     (if c \<noteq> CHR 0x0A \<and> is_upper u \<and> is_lower l
      then c # CHR ''_'' # u # l # takeWhile is_lower rest @ re_sub_word (dropWhile is_lower rest)
      else c # re_sub_word (u # l # rest))"
| "re_sub_word [c, u] = [c, u]"
| "re_sub_word [c] = [c]"
| "re_sub_word [] = []"
  by pat_completeness auto
termination
proof (relation "measure length")
  fix c u l :: char and rest :: string
  have "length (dropWhile is_lower rest) \<le> length rest"
    by (rule length_dropWhile_le)
  then show "(dropWhile is_lower rest, c # u # l # rest) \<in> measure length"
    by simp
qed auto

text \<open>
  \<^verbatim>\<open>re.sub("([a-z0-9])([A-Z])", r"\1_\2", s)\<close>: a lower-case letter or digit followed by
  an upper-case letter gets an underscore between the two.
\<close>

fun re_sub_camel :: "string \<Rightarrow> string" where
  "re_sub_camel (a # u # rest) =
     (if (is_lower a \<or> is_digit a) \<and> is_upper u
      then a # CHR ''_'' # u # re_sub_camel rest
      else a # re_sub_camel (u # rest))"
| "re_sub_camel [a] = [a]"
| "re_sub_camel [] = []"

definition get_slug :: "module \<Rightarrow> string" where
  "get_slug m =
     (case slug m of
        Some s \<Rightarrow>
          if s \<noteq> [] then s
          else str_lower (re_sub_camel (re_sub_word (class_name m)))
      | None \<Rightarrow> str_lower (re_sub_camel (re_sub_word (class_name m))))"

subsection \<open>The constructor\<close>

text \<open>
  \<^verbatim>\<open>MVTModule.__init__\<close>, on values: the class (its name and its \<open>slug\<close> attribute) and
  the six arguments. Which list objects the attributes refer to is the subject of the
  section on object identity below; everywhere else only their contents matter.
\<close>

definition MVTModule_init ::
  "string \<Rightarrow> string option \<Rightarrow> string option \<Rightarrow> string option \<Rightarrow> string option \<Rightarrow> bool \<Rightarrow>
   log_record list option \<Rightarrow> pyval \<Rightarrow> module" where
  "MVTModule_init cls cls_slug fp bf outf fm lg res =
     \<lparr>class_name = cls, slug = cls_slug, file_path = fp, base_folder = bf,
      output_folder = outf, fast_mode = fm, log = lg, indicators = None,
      results = res, detected = [], timeline = [], timeline_detected = []\<rparr>"

section \<open>Files\<close>

text \<open>
  What a file holds: a complete JSON document, the rows handed to a \<open>csv.writer\<close>
  (their quoting is the \<open>csv\<close> library's), or any other text, such as a file opened
  for writing whose document was never completed. The file system also says which
  paths cannot be opened and on which paths a write fails: both are decided by the
  machine the program runs on, never by the program. \<^verbatim>\<open>io.open\<close> returns a buffered
  handle, so a write fails at one of two moments, or at both: while the text is handed
  to the handle (an I/O error once the text outgrows the buffer), and when the handle is
  closed and what it still buffers is flushed (an I/O error on a text that fits the
  buffer, or again after a failed write when the fault lasts).
\<close>

datatype file_content = JsonText json | CsvRows "pyval list list" | OtherText

datatype write_failure = WhileWriting exn | AtClose exn | WhileWritingAndAtClose exn exn

record filesystem =
  files :: "string \<rightharpoonup> file_content"
  open_error :: "string \<Rightarrow> exn option"
  write_error :: "string \<Rightarrow> write_failure option"

text \<open>\<^verbatim>\<open>os.path.join(a, b)\<close> on POSIX.\<close>

definition os_path_join :: "string \<Rightarrow> string \<Rightarrow> string" where
  "os_path_join a b =
     (if b \<noteq> [] \<and> hd b = CHR ''/'' then b
      else if a = [] \<or> last a = CHR ''/'' then a @ b
      else a @ ''/'' @ b)"

text \<open>
  \<^verbatim>\<open>json.dump(v, handle, indent=4, default=str)\<close> on a handle opened on \<open>path\<close>: a write
  that fails while the text is handed over raises inside \<^verbatim>\<open>json.dump\<close> and leaves the
  file without a complete document; otherwise the handle takes the whole document.
\<close>

definition json_dump :: "pyval \<Rightarrow> string \<Rightarrow> filesystem \<Rightarrow> exn option \<times> filesystem" where
  "json_dump v path fs =
     (case write_error fs path of
        Some (WhileWriting e) \<Rightarrow> (Some e, fs)
      | Some (WhileWritingAndAtClose e e') \<Rightarrow> (Some e, fs)
      | _ \<Rightarrow>
          (case json_encode True False v of
             None \<Rightarrow> (Some TypeError, fs)
           | Some doc \<Rightarrow> (None, fs\<lparr>files := (files fs)(path \<mapsto> JsonText doc)\<rparr>)))"

text \<open>
  Closing the handle flushes its buffer: a write that fails at that moment raises then,
  and the file is left without its complete text.
\<close>

definition close_file :: "string \<Rightarrow> filesystem \<Rightarrow> exn option \<times> filesystem" where
  "close_file path fs =
     (case write_error fs path of
        Some (AtClose e) \<Rightarrow> (Some e, fs\<lparr>files := (files fs)(path \<mapsto> OtherText)\<rparr>)
      | Some (WhileWritingAndAtClose e' e) \<Rightarrow>
          (Some e, fs\<lparr>files := (files fs)(path \<mapsto> OtherText)\<rparr>)
      | _ \<Rightarrow> (None, fs))"

section \<open>Running a module\<close>

text \<open>
  A method is a function from the state it starts in to the exception it raises, if
  any, and the state it leaves: what a method changed before it raised stays changed.
  The state is the module and the file system.
\<close>

record state =
  mdl :: module
  disk :: filesystem

type_synonym prog = "state \<Rightarrow> exn option \<times> state"

text \<open>
  \<^verbatim>\<open>self.log.info(...)\<close>, \<^verbatim>\<open>self.log.error(...)\<close>, \<^verbatim>\<open>self.log.exception(...)\<close>: on a module
  built without a logger (\<^verbatim>\<open>log=None\<close>, the default) the attribute access raises.
\<close>

definition log_call :: "log_level \<Rightarrow> log_msg \<Rightarrow> log_arg list \<Rightarrow> prog" where
  "log_call lv msg args s =
     (case log (mdl s) of
        None \<Rightarrow> (Some AttributeError, s)
      | Some rs \<Rightarrow> (None, s\<lparr>mdl := (mdl s)\<lparr>log := Some (rs @ [(lv, msg, args)])\<rparr>\<rparr>))"

subsection \<open>save_to_json\<close>

text \<open>
  Leaving a \<^verbatim>\<open>with io.open(path, ...) as handle:\<close> block, normally or by an exception of
  its body: the handle is closed, and an exception of the close is the one that leaves.
\<close>

definition leave_with :: "string \<Rightarrow> exn option \<times> state \<Rightarrow> exn option \<times> state" where
  "leave_with path r =
     (case close_file path (disk (snd r)) of
        (Some e, fs) \<Rightarrow> (Some e, (snd r)\<lparr>disk := fs\<rparr>)
      | (None, fs) \<Rightarrow> (fst r, (snd r)\<lparr>disk := fs\<rparr>))"

text \<open>
  The block under \<^verbatim>\<open>if self.results:\<close>. \<^verbatim>\<open>io.open\<close> stands outside the \<^verbatim>\<open>try\<close>: when it
  raises, the exception leaves the method. Opening with \<^verbatim>\<open>"w"\<close> empties the file; an
  exception of \<^verbatim>\<open>json.dump\<close> that derives from \<open>Exception\<close> is logged and swallowed.
  The \<^verbatim>\<open>try\<close> stands inside the \<^verbatim>\<open>with\<close> block: the close of the handle is outside it.
\<close>

definition save_results_file :: "string \<Rightarrow> string \<Rightarrow> prog" where
  "save_results_file folder name s =
     (let results_file_name = name @ ''.json'';
          results_json_path = os_path_join folder results_file_name
      in case open_error (disk s) results_json_path of
           Some e \<Rightarrow> (Some e, s)
         | None \<Rightarrow>
             leave_with results_json_path
               (case json_dump (results (mdl s)) results_json_path
                       ((disk s)\<lparr>files := (files (disk s))(results_json_path \<mapsto> OtherText)\<rparr>) of
                  (None, fs) \<Rightarrow> (None, s\<lparr>disk := fs\<rparr>)
                | (Some e, fs) \<Rightarrow>
                    if is_Exception e
                    then log_call ERROR Unable_to_store_results
                           [AStr (class_name (mdl s)), AStr results_file_name, AExn e]
                           (s\<lparr>disk := fs\<rparr>)
                    else (Some e, s\<lparr>disk := fs\<rparr>)))"

text \<open>The block under \<^verbatim>\<open>if self.detected:\<close>, which has no \<^verbatim>\<open>try\<close>.\<close>

definition save_detected_file :: "string \<Rightarrow> string \<Rightarrow> prog" where
  "save_detected_file folder name s =
     (let detected_file_name = name @ ''_detected.json'';
          detected_json_path = os_path_join folder detected_file_name
      in case open_error (disk s) detected_json_path of
           Some e \<Rightarrow> (Some e, s)
         | None \<Rightarrow>
             leave_with detected_json_path
               (case json_dump (PList (detected (mdl s))) detected_json_path
                       ((disk s)\<lparr>files := (files (disk s))(detected_json_path \<mapsto> OtherText)\<rparr>) of
                  (r, fs) \<Rightarrow> (r, s\<lparr>disk := fs\<rparr>)))"

definition save_to_json :: prog where
  "save_to_json s =
     (case output_folder (mdl s) of
        None \<Rightarrow> (None, s)
      | Some folder \<Rightarrow>
          if folder = [] then (None, s)
          else
            let name = get_slug (mdl s) in
            (case (if truthy (results (mdl s)) then save_results_file folder name s
                   else (None, s)) of
               (Some e, s1) \<Rightarrow> (Some e, s1)
             | (None, s1) \<Rightarrow>
                 if detected (mdl s1) \<noteq> [] then save_detected_file folder name s1
                 else (None, s1)))"

subsection \<open>to_timeline and timeline_deduplicate\<close>

text \<open>
  What \<^verbatim>\<open>for x in v\<close> iterates over; \<open>None\<close> is the \<open>TypeError\<close> of a value that is
  not iterable.
\<close>

fun py_iter :: "pyval \<Rightarrow> pyval list option" where
  "py_iter (PList xs) = Some xs"
| "py_iter (PTuple xs) = Some xs"
| "py_iter (PDict kvs) = Some (map (\<lambda>kv. PStr (fst kv)) kvs)"
| "py_iter (PStr s) = Some (map (\<lambda>c. PStr [c]) s)"
| "py_iter v = None"

text \<open>\<^verbatim>\<open>len(v)\<close>, with \<open>None\<close> for the \<open>TypeError\<close> of a value without a length.\<close>

fun py_len :: "pyval \<Rightarrow> nat option" where
  "py_len (PList xs) = Some (length xs)"
| "py_len (PTuple xs) = Some (length xs)"
| "py_len (PDict kvs) = Some (length kvs)"
| "py_len (PStr s) = Some (length s)"
| "py_len v = None"

text \<open>
  The three methods a module class overrides. \<open>serialize\<close> is taken to be a function
  of the entry alone. In the base class each of them raises \<open>NotImplementedError\<close>.
\<close>

record module_ops =
  run :: prog
  check_indicators :: prog
  serialize :: "pyval \<Rightarrow> exn + pyval"

definition MVTModule_ops :: module_ops where
  "MVTModule_ops =
     \<lparr>run = (\<lambda>s. (Some NotImplementedError, s)),
      check_indicators = (\<lambda>s. (Some NotImplementedError, s)),
      serialize = (\<lambda>r. Inl NotImplementedError)\<rparr>"

text \<open>
  One of the two loops of \<^verbatim>\<open>to_timeline\<close>: every entry is serialised, a falsy record is
  dropped, a \<open>list\<close> extends the timeline and anything else is appended to it. An
  exception of \<open>serialize\<close> ends the loop, the timeline keeping what it got so far.
\<close>

fun serialize_into ::
  "(pyval \<Rightarrow> exn + pyval) \<Rightarrow> pyval list \<Rightarrow> pyval list \<Rightarrow> exn option \<times> pyval list" where
  "serialize_into f [] acc = (None, acc)"
| "serialize_into f (r # rs) acc =
     (case f r of
        Inl e \<Rightarrow> (Some e, acc)
      | Inr record \<Rightarrow>
          serialize_into f rs
            (if truthy record
             then (case record of PList xs \<Rightarrow> acc @ xs | _ \<Rightarrow> acc @ [record])
             else acc))"

text \<open>
  \<^verbatim>\<open>timeline_deduplicate\<close>: every record is dumped with sorted keys (no \<open>default\<close>, so a
  foreign object raises), the dumps are added to a \<open>set\<close>, and the set is iterated.
  Python leaves the order in which a set is iterated open: \<open>set_iter\<close> maps the sequence
  of additions to that order, and is valid when it lists every element once.
\<close>

definition valid_set_iter :: "('a list \<Rightarrow> 'a list) \<Rightarrow> bool" where
  "valid_set_iter set_iter = (\<forall>xs. distinct (set_iter xs) \<and> set (set_iter xs) = set xs)"

definition timeline_deduplicate ::
  "(json list \<Rightarrow> json list) \<Rightarrow> pyval list \<Rightarrow> exn + pyval list" where
  "timeline_deduplicate set_iter tline =
     (case all_some (map (json_encode False True) tline) of
        None \<Rightarrow> Inl TypeError
      | Some dumps \<Rightarrow> Inr (map json_decode (set_iter dumps)))"

definition to_timeline :: "(json list \<Rightarrow> json list) \<Rightarrow> module_ops \<Rightarrow> prog" where
  "to_timeline set_iter ops s =
     (let m = mdl s in
      case py_iter (results m) of
        None \<Rightarrow> (Some TypeError, s)
      | Some rs \<Rightarrow>
          (case serialize_into (serialize ops) rs (timeline m) of
             (Some e, tline) \<Rightarrow> (Some e, s\<lparr>mdl := m\<lparr>timeline := tline\<rparr>\<rparr>)
           | (None, tline) \<Rightarrow>
               (case serialize_into (serialize ops) (detected m) (timeline_detected m) of
                  (Some e, tdet) \<Rightarrow>
                    (Some e, s\<lparr>mdl := m\<lparr>timeline := tline, timeline_detected := tdet\<rparr>\<rparr>)
                | (None, tdet) \<Rightarrow>
                    (case timeline_deduplicate set_iter tline of
                       Inl e \<Rightarrow>
                         (Some e, s\<lparr>mdl := m\<lparr>timeline := tline, timeline_detected := tdet\<rparr>\<rparr>)
                     | Inr tline' \<Rightarrow>
                         (case timeline_deduplicate set_iter tdet of
                            Inl e \<Rightarrow>
                              (Some e,
                               s\<lparr>mdl := m\<lparr>timeline := tline', timeline_detected := tdet\<rparr>\<rparr>)
                          | Inr tdet' \<Rightarrow>
                              (None,
                               s\<lparr>mdl := m\<lparr>timeline := tline',
                                            timeline_detected := tdet'\<rparr>\<rparr>))))))"

subsection \<open>run_module\<close>

text \<open>
  The handlers of the first \<^verbatim>\<open>try\<close>, in the order of the source. An exception that does
  not derive from \<open>Exception\<close> matches none of them.
\<close>

definition run_failed :: "exn \<Rightarrow> prog" where
  "run_failed e s =
     (let cls = class_name (mdl s) in
      if e = NotImplementedError then log_call EXCEPTION Run_not_implemented [AStr cls] s
      else if e = InsufficientPrivileges
        then log_call INFO Insufficient_privileges [AStr cls, AExn e] s
      else if e = DatabaseNotFoundError
        then log_call INFO No_data_to_extract [AStr cls, AExn e] s
      else if e = DatabaseCorruptedError
        then log_call ERROR Database_corrupted [AStr cls, AExn e] s
      else if is_Exception e
        then log_call EXCEPTION Error_in_extraction [AStr cls, AExn e] s
      else (Some e, s))"

text \<open>
  The \<^verbatim>\<open>else\<close> branch of the first \<^verbatim>\<open>try\<close>, which no handler of that \<^verbatim>\<open>try\<close> covers.
  It has three statements. The first: \<^verbatim>\<open>check_indicators\<close> under a \<^verbatim>\<open>try\<close> that catches
  \<open>NotImplementedError\<close> only, with the notice of its own \<^verbatim>\<open>else\<close> branch.
\<close>

definition check_indicators_step :: "module_ops \<Rightarrow> prog" where
  "check_indicators_step ops s =
     (case check_indicators ops s of
        (Some e, s1) \<Rightarrow>
          if e = NotImplementedError
          then log_call INFO No_indicator_support [AStr (class_name (mdl s1))] s1
          else (Some e, s1)
      | (None, s1) \<Rightarrow>
          if indicators (mdl s1) \<noteq> None \<and> detected (mdl s1) = []
          then log_call INFO No_detections [AStr (class_name (mdl s1))] s1
          else (None, s1))"

text \<open>The second: \<^verbatim>\<open>to_timeline\<close> under a \<^verbatim>\<open>try\<close> that passes on \<open>NotImplementedError\<close>.\<close>

definition to_timeline_step :: "(json list \<Rightarrow> json list) \<Rightarrow> module_ops \<Rightarrow> prog" where
  "to_timeline_step set_iter ops s =
     (case to_timeline set_iter ops s of
        (Some e, s1) \<Rightarrow> if e = NotImplementedError then (None, s1) else (Some e, s1)
      | (None, s1) \<Rightarrow> (None, s1))"

text \<open>The third is the call of \<^verbatim>\<open>save_to_json\<close>.\<close>

definition run_succeeded :: "(json list \<Rightarrow> json list) \<Rightarrow> module_ops \<Rightarrow> prog" where
  "run_succeeded set_iter ops s =
     (case check_indicators_step ops s of
        (Some e, s1) \<Rightarrow> (Some e, s1)
      | (None, s1) \<Rightarrow>
          (case to_timeline_step set_iter ops s1 of
             (Some e, s2) \<Rightarrow> (Some e, s2)
           | (None, s2) \<Rightarrow> save_to_json s2))"

definition run_module :: "(json list \<Rightarrow> json list) \<Rightarrow> module_ops \<Rightarrow> prog" where
  "run_module set_iter ops s =
     (case log_call INFO Running_module [AStr (class_name (mdl s))] s of
        (Some e, s0) \<Rightarrow> (Some e, s0)
      | (None, s0) \<Rightarrow>
          (case run ops s0 of
             (Some e, s1) \<Rightarrow> run_failed e s1
           | (None, s1) \<Rightarrow> run_succeeded set_iter ops s1))"

text \<open>
  The stages of the pipeline that a run of \<open>run_module\<close> enters, read off its calls: the
  run is in \<open>EXTRACTING\<close> when it calls \<^verbatim>\<open>module.run()\<close>, in \<open>DETECTING\<close> when it calls
  \<^verbatim>\<open>module.check_indicators()\<close>, in \<open>TIMELINING\<close> when it calls \<^verbatim>\<open>module.to_timeline()\<close>
  and in \<open>PERSISTED\<close> when it calls \<^verbatim>\<open>module.save_to_json()\<close>. \<open>run_module_staged\<close> is
  \<open>run_module\<close> with the stages entered listed beside the outcome.
\<close>

datatype stage = CREATED | EXTRACTING | EXTRACTED | EXTRACT_FAILED | DETECTING | TIMELINING
  | PERSISTED

definition run_module_staged ::
  "(json list \<Rightarrow> json list) \<Rightarrow> module_ops \<Rightarrow> state \<Rightarrow> stage list \<times> (exn option \<times> state)" where
  "run_module_staged set_iter ops s =
     (case log_call INFO Running_module [AStr (class_name (mdl s))] s of
        (Some e, s0) \<Rightarrow> ([CREATED], (Some e, s0))
      | (None, s0) \<Rightarrow>
          (case run ops s0 of
             (Some e, s1) \<Rightarrow> ([CREATED, EXTRACTING, EXTRACT_FAILED], run_failed e s1)
           | (None, s1) \<Rightarrow>
               (case check_indicators_step ops s1 of
                  (Some e, s2) \<Rightarrow>
                    ([CREATED, EXTRACTING, EXTRACTED, DETECTING], (Some e, s2))
                | (None, s2) \<Rightarrow>
                    (case to_timeline_step set_iter ops s2 of
                       (Some e, s3) \<Rightarrow>
                         ([CREATED, EXTRACTING, EXTRACTED, DETECTING, TIMELINING],
                          (Some e, s3))
                     | (None, s3) \<Rightarrow>
                         ([CREATED, EXTRACTING, EXTRACTED, DETECTING, TIMELINING,
                           PERSISTED],
                          save_to_json s3)))))"

subsection \<open>from_json\<close>

text \<open>
  \<^verbatim>\<open>from_json(cls, json_path, log)\<close>: the file is opened for reading and parsed, the count
  is logged when a logger is given, and the class is instantiated with the parsed value
  as \<open>results\<close> and every other argument at its default. A missing file raises
  \<open>FileNotFoundError\<close> (an \<open>OSError\<close>); a file that does not hold a JSON document
  raises \<open>JSONDecodeError\<close>.
\<close>

definition from_json ::
  "string \<Rightarrow> string option \<Rightarrow> string \<Rightarrow> log_record list option \<Rightarrow> filesystem \<Rightarrow>
   exn + module" where
  "from_json cls cls_slug json_path lg fs =
     (case open_error fs json_path of
        Some e \<Rightarrow> Inl e
      | None \<Rightarrow>
          (case files fs json_path of
             None \<Rightarrow> Inl OSError
           | Some (JsonText doc) \<Rightarrow>
               (let res = json_decode doc in
                case lg of
                  None \<Rightarrow> Inr (MVTModule_init cls cls_slug None None None False None res)
                | Some rs \<Rightarrow>
                    (case py_len res of
                       None \<Rightarrow> Inl TypeError
                     | Some n \<Rightarrow>
                         Inr (MVTModule_init cls cls_slug None None None False
                                (Some (rs @ [(INFO, Loaded_results,
                                              [AInt (int n), AStr json_path])]))
                                res)))
           | Some other \<Rightarrow> Inl JSONDecodeError))"

section \<open>save_timeline\<close>

text \<open>
  The sort key \<^verbatim>\<open>lambda x: x["timestamp"] if x["timestamp"] is not None else ""\<close>. An
  entry that is not a dictionary cannot be subscripted by a string, and one without the
  key raises \<open>KeyError\<close>.
\<close>

definition timestamp_key :: "pyval \<Rightarrow> exn + pyval" where
  "timestamp_key x =
     (case x of
        PDict kvs \<Rightarrow>
          (case map_of kvs ''timestamp'' of
             None \<Rightarrow> Inl KeyError
           | Some PNone \<Rightarrow> Inr (PStr [])
           | Some v \<Rightarrow> Inr v)
      | _ \<Rightarrow> Inl TypeError)"

fun all_right :: "('e + 'a) list \<Rightarrow> 'e + 'a list" where
  "all_right [] = Inr []"
| "all_right (Inl e # xs) = Inl e"
| "all_right (Inr x # xs) = (case all_right xs of Inl e \<Rightarrow> Inl e | Inr ys \<Rightarrow> Inr (x # ys))"

text \<open>
  \<^verbatim>\<open>sorted\<close> on entries paired with their keys. The sort is stable and ascending. Up to
  one entry is never compared. Strings are ordered among themselves, character by
  character, and so are integers and booleans (\<open>False\<close> as 0, \<open>True\<close> as 1); comparing a
  string with a number raises \<open>TypeError\<close>. The order of keys of any other kind (lists,
  tuples, foreign objects) is not modelled: \<open>unmodelled_sorted\<close> is left unspecified.
\<close>

fun is_str_key :: "pyval \<Rightarrow> bool" where
  "is_str_key (PStr s) = True"
| "is_str_key v = False"

fun is_int_key :: "pyval \<Rightarrow> bool" where
  "is_int_key (PInt i) = True"
| "is_int_key (PBool b) = True"
| "is_int_key v = False"

fun str_of_key :: "pyval \<Rightarrow> string" where
  "str_of_key (PStr s) = s"
| "str_of_key v = []"

fun int_of_key :: "pyval \<Rightarrow> int" where
  "int_of_key (PInt i) = i"
| "int_of_key (PBool b) = (if b then 1 else 0)"
| "int_of_key v = 0"

definition unmodelled_sorted :: "(pyval \<times> pyval) list \<Rightarrow> exn + pyval list" where
  "unmodelled_sorted = (SOME f. True)"

definition sorted_by_key :: "(pyval \<times> pyval) list \<Rightarrow> exn + pyval list" where
  "sorted_by_key kxs =
     (if length kxs \<le> 1 then Inr (map snd kxs)
      else if list_all (\<lambda>kx. is_str_key (fst kx)) kxs
        then Inr (map snd (sort_key (\<lambda>kx. str_of_key (fst kx)) kxs))
      else if list_all (\<lambda>kx. is_int_key (fst kx)) kxs
        then Inr (map snd (sort_key (\<lambda>kx. int_of_key (fst kx)) kxs))
      else if list_all (\<lambda>kx. is_str_key (fst kx) \<or> is_int_key (fst kx)) kxs
        then Inl TypeError
      else unmodelled_sorted kxs)"

text \<open>\<^verbatim>\<open>event.get(k)\<close>; the events that reach it are dictionaries.\<close>

definition dict_get :: "pyval \<Rightarrow> string \<Rightarrow> pyval" where
  "dict_get event k =
     (case event of
        PDict kvs \<Rightarrow> (case map_of kvs k of None \<Rightarrow> PNone | Some v \<Rightarrow> v)
      | _ \<Rightarrow> PNone)"

definition csv_row :: "pyval \<Rightarrow> pyval list" where
  "csv_row event =
     [dict_get event ''timestamp'', dict_get event ''module'',
      dict_get event ''event'', dict_get event ''data'']"

definition csv_header :: "pyval list" where
  "csv_header = [PStr ''UTC Timestamp'', PStr ''Plugin'', PStr ''Event'', PStr ''Description'']"

text \<open>
  Writing rows through a handle opened with \<^verbatim>\<open>"a+"\<close>: the file is created when it is
  missing, and what it holds stays in front of the new rows.
\<close>

definition append_rows :: "string \<Rightarrow> pyval list list \<Rightarrow> filesystem \<Rightarrow> filesystem" where
  "append_rows path rows fs =
     fs\<lparr>files := (files fs)(path \<mapsto>
        (case files fs path of
           None \<Rightarrow> CsvRows rows
         | Some (CsvRows old) \<Rightarrow> CsvRows (old @ rows)
         | Some other \<Rightarrow> (if rows = [] then other else OtherText)))\<rparr>"

text \<open>
  The body of the \<^verbatim>\<open>with\<close> block of \<open>save_timeline\<close>: the header row is written, then
  \<^verbatim>\<open>sorted(timeline, key=...)\<close> computes every key and sorts, then a row is written for
  every event.
\<close>

definition write_timeline :: "pyval list \<Rightarrow> string \<Rightarrow> filesystem \<Rightarrow> exn option \<times> filesystem" where
  "write_timeline tline timeline_path fs =
     (case write_error fs timeline_path of
        Some (WhileWriting e) \<Rightarrow> (Some e, fs)
      | Some (WhileWritingAndAtClose e e') \<Rightarrow> (Some e, fs)
      | _ \<Rightarrow>
          (let fs1 = append_rows timeline_path [csv_header] fs in
           case all_right (map timestamp_key tline) of
             Inl e \<Rightarrow> (Some e, fs1)
           | Inr keys \<Rightarrow>
               (case sorted_by_key (zip keys tline) of
                  Inl e \<Rightarrow> (Some e, fs1)
                | Inr events \<Rightarrow>
                    (None, append_rows timeline_path (map csv_row events) fs1))))"

text \<open>
  \<open>save_timeline\<close>: the file is opened with \<^verbatim>\<open>"a+"\<close>, the body runs, and the handle is
  closed on the way out, whether the body raised or not.
\<close>

definition save_timeline :: "pyval list \<Rightarrow> string \<Rightarrow> filesystem \<Rightarrow> exn option \<times> filesystem" where
  "save_timeline tline timeline_path fs =
     (case open_error fs timeline_path of
        Some e \<Rightarrow> (Some e, fs)
      | None \<Rightarrow>
          (case write_timeline tline timeline_path (append_rows timeline_path [] fs) of
             (r, fs2) \<Rightarrow>
               (case close_file timeline_path fs2 of
                  (Some e, fs3) \<Rightarrow> (Some e, fs3)
                | (None, fs3) \<Rightarrow> (r, fs3))))"

section \<open>Object identity of the accumulators\<close>

text \<open>
  \<^verbatim>\<open>def __init__(self, ..., results=[])\<close> evaluates its default once, when the class body
  is executed: the list it creates is one object, bound to every call that passes no
  \<open>results\<close>. \<^verbatim>\<open>self.detected = []\<close> and the two timelines create a list per call.
  The heap maps the addresses of list objects to their contents; an instance holds
  addresses.
\<close>

record heap =
  cells :: "nat \<rightharpoonup> pyval list"
  next_addr :: nat

definition new_list :: "heap \<Rightarrow> nat \<times> heap" where
  "new_list h = (next_addr h, \<lparr>cells = (cells h)(next_addr h \<mapsto> []), next_addr = Suc (next_addr h)\<rparr>)"

text \<open>The heap once the class body has run: its only list is the default of \<open>results\<close>.\<close>

definition class_heap :: "nat \<times> heap" where
  "class_heap = new_list \<lparr>cells = Map.empty, next_addr = 0\<rparr>"

record module_obj =
  results_at :: nat
  detected_at :: nat
  timeline_at :: nat
  timeline_detected_at :: nat

text \<open>
  The four assignments of \<^verbatim>\<open>__init__\<close> to the accumulators. \<open>dflt\<close> is the address of
  the default list; \<open>arg\<close> is the address passed as \<open>results\<close>, if one is.
\<close>

definition init_accumulators :: "nat \<Rightarrow> nat option \<Rightarrow> heap \<Rightarrow> module_obj \<times> heap" where
  "init_accumulators dflt arg h =
     (let r = (case arg of None \<Rightarrow> dflt | Some a \<Rightarrow> a);
          (d, h1) = new_list h;
          (t, h2) = new_list h1;
          (td, h3) = new_list h2
      in (\<lparr>results_at = r, detected_at = d, timeline_at = t, timeline_detected_at = td\<rparr>, h3))"

text \<open>\<^verbatim>\<open>xs.append(v)\<close> on the list object at an address.\<close>

definition list_append :: "nat \<Rightarrow> pyval \<Rightarrow> heap \<Rightarrow> heap" where
  "list_append a v h =
     (case cells h a of
        None \<Rightarrow> h
      | Some xs \<Rightarrow> h\<lparr>cells := (cells h)(a \<mapsto> xs @ [v])\<rparr>)"

section \<open>Notions used in the statements\<close>

text \<open>
  The document \<open>json_encode\<close> returns when nothing is refused: a tuple as an array, a
  foreign object as its string.
\<close>

fun json_of :: "bool \<Rightarrow> pyval \<Rightarrow> json" where
  "json_of sk PNone = JNull"
| "json_of sk (PBool b) = JBool b"
| "json_of sk (PInt i) = JInt i"
| "json_of sk (PStr s) = JStr s"
| "json_of sk (PList xs) = JArr (map (json_of sk) xs)"
| "json_of sk (PTuple xs) = JArr (map (json_of sk) xs)"
| "json_of sk (PDict kvs) =
     JObj ((if sk then sort_key fst else id) (map (\<lambda>kv. (fst kv, json_of sk (snd kv))) kvs))"
| "json_of sk (PObj s) = JStr s"

text \<open>
  A flat record: a dictionary whose values are \<open>None\<close>, booleans, integers or strings, as
  the four fields of a timeline entry are.
\<close>

fun is_scalar :: "pyval \<Rightarrow> bool" where
  "is_scalar PNone = True"
| "is_scalar (PBool b) = True"
| "is_scalar (PInt i) = True"
| "is_scalar (PStr s) = True"
| "is_scalar v = False"

definition flat_record :: "(string \<times> pyval) list \<Rightarrow> bool" where
  "flat_record kvs = (distinct (map fst kvs) \<and> list_all (\<lambda>kv. is_scalar (snd kv)) kvs)"

section \<open>Example inputs\<close>

text \<open>
  A module class \<open>ContactList\<close> with one extracted entry, a logger and the output folder
  \<open>out\<close>, on a disk with no files where every open and every write succeeds.
\<close>

definition example_entry :: pyval where
  "example_entry =
     PDict [(''timestamp'', PStr ''2023-01-02''), (''module'', PStr ''ContactList''),
            (''event'', PStr ''contact_added''), (''data'', PStr ''Alice'')]"

definition example_module :: module where
  "example_module =
     MVTModule_init ''ContactList'' None None None (Some ''out'') False (Some [])
       (PList [example_entry])"

definition example_disk :: filesystem where
  "example_disk = \<lparr>files = Map.empty, open_error = (\<lambda>p. None), write_error = (\<lambda>p. None)\<rparr>"

definition example_state :: state where
  "example_state = \<lparr>mdl = example_module, disk = example_disk\<rparr>"

text \<open>A class whose \<open>run\<close> raises \<open>e\<close>, and one whose \<open>check_indicators\<close> raises \<open>e\<close>.\<close>

definition run_raising :: "exn \<Rightarrow> module_ops" where
  "run_raising e = MVTModule_ops\<lparr>run := (\<lambda>s. (Some e, s))\<rparr>"

definition check_raising :: "exn \<Rightarrow> module_ops" where
  "check_raising e =
     MVTModule_ops\<lparr>run := (\<lambda>s. (None, s)), check_indicators := (\<lambda>s. (Some e, s))\<rparr>"




text \<open>An order of iteration that lists the elements last added first.\<close>

definition last_added_first :: "json list \<Rightarrow> json list" where
  "last_added_first xs = rev (remdups xs)"

section \<open>Properties\<close>

lemmas char_class_defs = is_upper_def is_lower_def is_digit_def lower_char_def is_ascii_def

lemmas example_defs = example_entry_def example_module_def example_disk_def example_state_def
  run_raising_def check_raising_def MVTModule_ops_def MVTModule_init_def

subsection \<open>get_slug\<close>

lemma lower_not_upper: "is_lower c \<Longrightarrow> \<not> is_upper c"
  by (auto simp: is_lower_def is_upper_def less_eq_char_def)

lemma lower_not_newline: "is_lower c \<Longrightarrow> c \<noteq> CHR 0x0A"
  by (auto simp: is_lower_def less_eq_char_def)

lemma upper_not_lower_digit: "is_upper c \<Longrightarrow> \<not> (is_lower c \<or> is_digit c)"
  by (auto simp: is_lower_def is_upper_def is_digit_def less_eq_char_def)

lemma underscore_class:
  "\<not> is_upper CHR ''_''" "\<not> (is_lower CHR ''_'' \<or> is_digit CHR ''_'')" "is_ascii CHR ''_''"
  "lower_char CHR ''_'' = CHR ''_''"
  by (simp_all add: char_class_defs)

lemma letters_ascii: "is_lower c \<or> is_upper c \<Longrightarrow> is_ascii c"
  by (auto simp: is_lower_def is_upper_def is_ascii_def less_eq_char_def)

lemma lower_char_lower: "is_lower c \<Longrightarrow> lower_char c = c"
  by (simp add: lower_char_def lower_not_upper)

lemma small_letter: "c \<in> set ''abcdefghijklmnopqrstuvwxyz'' \<Longrightarrow> is_lower c"
  by (auto simp: is_lower_def)

lemma capital_letter:
  "map_of (zip ''ABCDEFGHIJKLMNOPQRSTUVWXYZ'' ''abcdefghijklmnopqrstuvwxyz'') u = Some v \<Longrightarrow>
     is_upper u \<and> lower_char u = v"
  by (auto simp: is_upper_def lower_char_def split: if_splits)


lemma takeWhile_all: "\<forall>x\<in>set xs. P x \<Longrightarrow> takeWhile P xs = xs"
  by (induction xs) auto

lemma dropWhile_all: "\<forall>x\<in>set xs. P x \<Longrightarrow> dropWhile P xs = []"
  by (induction xs) auto

lemma re_sub_word_second_word:
  assumes "list_all is_lower ls" and "ls \<noteq> []"
    and "is_upper u" and "list_all is_lower l2" and "l2 \<noteq> []"
  shows "re_sub_word (ls @ u # l2) = ls @ CHR ''_'' # u # l2"
  using assms(1,2)
proof (induction ls)
  case Nil
  then show ?case by simp
next
  case (Cons c ls)
  from assms(4,5) obtain h t where l2: "l2 = h # t" and h: "is_lower h" and t: "list_all is_lower t"
    by (cases l2) auto
  show ?case
  proof (cases ls)
    case Nil
    have "c \<noteq> CHR 0x0A"
      using Cons.prems by (simp add: lower_not_newline)
    moreover have "\<forall>x\<in>set t. is_lower x"
      using t by (simp add: list_all_iff)
    ultimately show ?thesis
      using Nil l2 h assms(3) by (simp add: takeWhile_all dropWhile_all)
  next
    case (Cons c' ls')
    have "\<not> is_upper c'"
      using Cons.prems Cons by (simp add: lower_not_upper)
    moreover obtain x rest where "ls' @ u # l2 = x # rest"
      by (cases "ls' @ u # l2") auto
    ultimately have "re_sub_word (c # c' # ls' @ u # l2) = c # re_sub_word (c' # ls' @ u # l2)"
      by simp
    moreover have "re_sub_word (ls @ u # l2) = ls @ CHR ''_'' # u # l2"
      using Cons.IH Cons.prems Cons by simp
    ultimately show ?thesis
      using Cons by simp
  qed
qed

lemma re_sub_word_two_words:
  assumes "list_all is_lower l1" and "l1 \<noteq> []"
    and "is_upper u2" and "list_all is_lower l2" and "l2 \<noteq> []"
  shows "re_sub_word (u1 # l1 @ u2 # l2) = u1 # l1 @ CHR ''_'' # u2 # l2"
proof -
  from assms(1,2) obtain c ls where l1: "l1 = c # ls" and c: "is_lower c"
    by (cases l1) auto
  have "re_sub_word (u1 # c # ls @ u2 # l2) = u1 # re_sub_word (c # ls @ u2 # l2)"
  proof -
    obtain x rest where "ls @ u2 # l2 = x # rest"
      by (cases "ls @ u2 # l2") auto
    then show ?thesis
      using c by (simp add: lower_not_upper)
  qed
  then show ?thesis
    using re_sub_word_second_word [OF assms] l1 by simp
qed

lemma re_sub_camel_skip:
  "\<not> (is_lower a \<or> is_digit a) \<Longrightarrow> re_sub_camel (a # rest) = a # re_sub_camel rest"
  by (cases rest) auto

lemma re_sub_camel_lowers:
  "list_all is_lower ls \<Longrightarrow> (rest = [] \<or> \<not> is_upper (hd rest)) \<Longrightarrow>
     re_sub_camel (ls @ rest) = ls @ re_sub_camel rest"
proof (induction ls)
  case Nil
  then show ?case by simp
next
  case (Cons c ls)
  have ih: "re_sub_camel (ls @ rest) = ls @ re_sub_camel rest"
    using Cons by simp
  show ?case
  proof (cases "ls @ rest")
    case Nil
    then show ?thesis by simp
  next
    case (Cons x xs)
    have "\<not> is_upper x"
    proof (cases ls)
      case Nil
      with Cons \<open>rest = [] \<or> \<not> is_upper (hd rest)\<close> show ?thesis by auto
    next
      case (Cons y ys)
      with \<open>ls @ rest = x # xs\<close> \<open>list_all is_lower (c # ls)\<close> show ?thesis
        by (auto simp: lower_not_upper)
    qed
    then have "re_sub_camel (c # x # xs) = c # re_sub_camel (x # xs)"
      by simp
    with Cons ih show ?thesis by simp
  qed
qed

lemma re_sub_camel_two_words:
  assumes "is_upper u1" and "list_all is_lower l1"
    and "is_upper u2" and "list_all is_lower l2"
  shows "re_sub_camel (u1 # l1 @ CHR ''_'' # u2 # l2) = u1 # l1 @ CHR ''_'' # u2 # l2"
proof -
  have "re_sub_camel l2 = l2"
    using re_sub_camel_lowers [OF assms(4), of "[]"] by simp
  then have "re_sub_camel (u2 # l2) = u2 # l2"
    using assms(3) by (simp add: re_sub_camel_skip upper_not_lower_digit)
  then have "re_sub_camel (CHR ''_'' # u2 # l2) = CHR ''_'' # u2 # l2"
    using re_sub_camel_skip [of "CHR ''_''" "u2 # l2"] underscore_class by simp
  then have "re_sub_camel (l1 @ CHR ''_'' # u2 # l2) = l1 @ CHR ''_'' # u2 # l2"
    using re_sub_camel_lowers [OF assms(2), of "CHR ''_'' # u2 # l2"] underscore_class by simp
  then show ?thesis
    using assms(1) by (simp add: re_sub_camel_skip upper_not_lower_digit)
qed

lemma str_lower_two_words:
  assumes "is_upper u1" and "list_all is_lower l1"
    and "is_upper u2" and "list_all is_lower l2"
  shows "str_lower (u1 # l1 @ CHR ''_'' # u2 # l2) =
           lower_char u1 # l1 @ CHR ''_'' # lower_char u2 # l2"
proof -
  have "list_all is_ascii (u1 # l1 @ CHR ''_'' # u2 # l2)"
    using assms by (auto simp: list_all_iff letters_ascii underscore_class)
  moreover have "map lower_char l1 = l1" "map lower_char l2 = l2"
    using assms(2,4) by (auto simp: list_all_iff lower_char_lower intro: map_idI)
  ultimately show ?thesis
    by (simp add: str_lower_def underscore_class)
qed

text \<open>
  Claim C8, as amended. \<open>get_slug\<close> is a function of the \<open>slug\<close> attribute and the class
  name alone. With no override in force, every class name of two capitalized words, a
  capital letter \<open>u1\<close> and small letters \<open>l1\<close> followed by a capital letter \<open>u2\<close> and small
  letters \<open>l2\<close>, gives the two words in small letters joined by an underscore: \<open>v1\<close> and
  \<open>v2\<close> are the small letters of \<open>u1\<close> and \<open>u2\<close>. And a \<open>slug\<close> that is set to a non-empty
  string is returned unchanged, whatever the class name. The override is tested for truth
  (\<^verbatim>\<open>if self.slug:\<close>), so the empty string, although not \<open>None\<close>, does not count as one.
\<close>

theorem get_slug_override_or_derived:
  "(slug m = slug m' \<and> class_name m = class_name m' \<longrightarrow> get_slug m = get_slug m') \<and>
   ((slug m = None \<or> slug m = Some []) \<and> class_name m = u1 # l1 @ u2 # l2 \<and>
    map_of (zip ''ABCDEFGHIJKLMNOPQRSTUVWXYZ'' ''abcdefghijklmnopqrstuvwxyz'') u1 = Some v1 \<and>
    map_of (zip ''ABCDEFGHIJKLMNOPQRSTUVWXYZ'' ''abcdefghijklmnopqrstuvwxyz'') u2 = Some v2 \<and>
    l1 \<noteq> [] \<and> set l1 \<subseteq> set ''abcdefghijklmnopqrstuvwxyz'' \<and>
    l2 \<noteq> [] \<and> set l2 \<subseteq> set ''abcdefghijklmnopqrstuvwxyz''
      \<longrightarrow> get_slug m = v1 # l1 @ ''_'' @ v2 # l2) \<and>
   (slug m = Some s \<and> s \<noteq> [] \<longrightarrow> get_slug m = s)"
proof (intro conjI impI)
  assume "slug m = slug m' \<and> class_name m = class_name m'"
  then show "get_slug m = get_slug m'"
    by (simp add: get_slug_def split: option.splits)
next
  assume "slug m = Some s \<and> s \<noteq> []"
  then show "get_slug m = s"
    by (simp add: get_slug_def)
next
  assume h: "(slug m = None \<or> slug m = Some []) \<and> class_name m = u1 # l1 @ u2 # l2 \<and>
    map_of (zip ''ABCDEFGHIJKLMNOPQRSTUVWXYZ'' ''abcdefghijklmnopqrstuvwxyz'') u1 = Some v1 \<and>
    map_of (zip ''ABCDEFGHIJKLMNOPQRSTUVWXYZ'' ''abcdefghijklmnopqrstuvwxyz'') u2 = Some v2 \<and>
    l1 \<noteq> [] \<and> set l1 \<subseteq> set ''abcdefghijklmnopqrstuvwxyz'' \<and>
    l2 \<noteq> [] \<and> set l2 \<subseteq> set ''abcdefghijklmnopqrstuvwxyz''"
  then have u1: "is_upper u1" "lower_char u1 = v1" and u2: "is_upper u2" "lower_char u2 = v2"
    using capital_letter [of u1 v1] capital_letter [of u2 v2] by simp_all
  have l1: "list_all is_lower l1" and l2: "list_all is_lower l2"
    unfolding list_all_iff using h small_letter by blast+
  have n1: "l1 \<noteq> []" and n2: "l2 \<noteq> []"
    using h by simp_all
  have "get_slug m = str_lower (re_sub_camel (re_sub_word (u1 # l1 @ u2 # l2)))"
    using h by (auto simp: get_slug_def)
  also have "\<dots> = str_lower (re_sub_camel (u1 # l1 @ CHR ''_'' # u2 # l2))"
    by (simp only: re_sub_word_two_words [OF l1 n1 u2(1) l2 n2])
  also have "\<dots> = str_lower (u1 # l1 @ CHR ''_'' # u2 # l2)"
    by (simp only: re_sub_camel_two_words [OF u1(1) l1 u2(1) l2])
  also have "\<dots> = v1 # l1 @ ''_'' @ v2 # l2"
    using str_lower_two_words [OF u1(1) l1 u2(1) l2] u1(2) u2(2) by simp
  finally show "get_slug m = v1 # l1 @ ''_'' @ v2 # l2" .
qed

text \<open>The class \<open>ContactList\<close>, without an override and with the override \<open>contacts\<close>.\<close>

theorem get_slug_override_or_derived_witness:
  "get_slug (MVTModule_init ''ContactList'' None None None None False None (PList []))
     = ''contact_list'' \<and>
   get_slug (MVTModule_init ''ContactList'' (Some ''contacts'') None None None False None (PList []))
     = ''contacts''"
proof -
  let ?m = "MVTModule_init ''ContactList'' None None None None False None (PList [])"
  let ?n = "MVTModule_init ''ContactList'' (Some ''contacts'') None None None False None (PList [])"
  have a: "(slug ?m = None \<or> slug ?m = Some []) \<and>
           class_name ?m = CHR ''C'' # ''ontact'' @ CHR ''L'' # ''ist'' \<and>
    map_of (zip ''ABCDEFGHIJKLMNOPQRSTUVWXYZ'' ''abcdefghijklmnopqrstuvwxyz'') CHR ''C''
      = Some CHR ''c'' \<and>
    map_of (zip ''ABCDEFGHIJKLMNOPQRSTUVWXYZ'' ''abcdefghijklmnopqrstuvwxyz'') CHR ''L''
      = Some CHR ''l'' \<and>
    ''ontact'' \<noteq> [] \<and> set ''ontact'' \<subseteq> set ''abcdefghijklmnopqrstuvwxyz'' \<and>
    ''ist'' \<noteq> [] \<and> set ''ist'' \<subseteq> set ''abcdefghijklmnopqrstuvwxyz''"
    by (simp add: MVTModule_init_def)
  have b: "slug ?n = Some ''contacts'' \<and> ''contacts'' \<noteq> []"
    by (simp add: MVTModule_init_def)
  from get_slug_override_or_derived [of ?m ?m "CHR ''C''" "''ontact''" "CHR ''L''" "''ist''"
         "CHR ''c''" "CHR ''l''" "''x''"] a
  have "get_slug ?m = ''contact_list''" by simp
  moreover from get_slug_override_or_derived [of ?n ?n "CHR ''C''" "''ontact''" "CHR ''L''" "''ist''"
         "CHR ''c''" "CHR ''l''" "''contacts''"] b
  have "get_slug ?n = ''contacts''" by blast
  ultimately show ?thesis by simp
qed

text \<open>
  Claim C8 as stated fails for the override \<open>""\<close>: it is not \<open>None\<close>, and \<open>get_slug\<close>
  returns the derived \<open>contact_list\<close> instead of it.
\<close>

theorem get_slug_empty_override_counterexample:
  "\<not> (\<forall>m s. slug m = Some s \<longrightarrow> get_slug m = s)"
proof
  assume h: "\<forall>m s. slug m = Some s \<longrightarrow> get_slug m = s"
  let ?m = "MVTModule_init ''ContactList'' (Some []) None None None False None (PList [])"
  have "slug ?m = Some []" by (simp add: MVTModule_init_def)
  with h have "get_slug ?m = []" by blast
  moreover have "get_slug ?m = ''contact_list''"
    by (simp add: get_slug_def MVTModule_init_def str_lower_def char_class_defs)
  ultimately show False by simp
qed

subsection \<open>save_to_json without an output folder\<close>

text \<open>
  Claim C10. When \<open>output_folder\<close> is \<open>None\<close>, \<open>save_to_json\<close> returns at once: it raises
  nothing and leaves the state, the disk included, as it was, whatever \<open>results\<close> and
  \<open>detected\<close> hold. So when the two earlier steps of the pipeline end in such a state, the
  pipeline ends there too, with nothing persisted.
\<close>

theorem save_to_json_without_output_folder:
  "output_folder (mdl s) = None \<longrightarrow>
     save_to_json s = (None, s) \<and>
     (check_indicators_step ops s1 = (None, s2) \<and> to_timeline_step set_iter ops s2 = (None, s)
        \<longrightarrow> run_succeeded set_iter ops s1 = (None, s))"
  by (simp add: save_to_json_def run_succeeded_def)

text \<open>A module with one result and one detection, and no output folder.\<close>

theorem save_to_json_without_output_folder_witness:
  "save_to_json (example_state\<lparr>mdl := example_module\<lparr>output_folder := None,
                                                       detected := [example_entry]\<rparr>\<rparr>) =
     (None, example_state\<lparr>mdl := example_module\<lparr>output_folder := None,
                                                  detected := [example_entry]\<rparr>\<rparr>) \<and>
   run_succeeded remdups (MVTModule_ops\<lparr>check_indicators := (\<lambda>s. (None, s))\<rparr>)
     (example_state\<lparr>mdl := example_module\<lparr>output_folder := None,
                                            detected := [example_entry]\<rparr>\<rparr>) =
     (None, example_state\<lparr>mdl := example_module\<lparr>output_folder := None,
                                                  detected := [example_entry]\<rparr>\<rparr>)"
proof -
  let ?t = "example_state\<lparr>mdl := example_module\<lparr>output_folder := None,
                                                  detected := [example_entry]\<rparr>\<rparr>"
  let ?ops = "MVTModule_ops\<lparr>check_indicators := (\<lambda>s. (None, s))\<rparr>"
  have a: "output_folder (mdl ?t) = None"
    by simp
  have b: "check_indicators_step ?ops ?t = (None, ?t)"
    by (simp add: check_indicators_step_def example_defs)
  have c: "to_timeline_step remdups ?ops ?t = (None, ?t)"
    by (simp add: to_timeline_step_def to_timeline_def example_defs)
  from a b c save_to_json_without_output_folder
         [where s = ?t and ops = ?ops and ?s1.0 = ?t and ?s2.0 = ?t and set_iter = remdups]
  show ?thesis by blast
qed

subsection \<open>run_module when the extraction fails\<close>

text \<open>The staged runner has the outcome of \<open>run_module\<close>.\<close>

lemma run_module_staged_outcome:
  "snd (run_module_staged set_iter ops s) = run_module set_iter ops s"
  by (simp add: run_module_staged_def run_module_def run_succeeded_def
        split: prod.splits option.splits)

text \<open>
  Claim C5, as amended. Let the module have a logger, so that the first line of
  \<open>run_module\<close> logs and leaves the state \<open>s0\<close>, and let \<open>run\<close> raise
  \<open>DatabaseNotFoundError\<close>, leaving a state \<open>s1\<close> with empty \<open>results\<close> and \<open>detected\<close>.
  Then \<open>run_module\<close> returns normally; the state it leaves is \<open>s1\<close> with one more record
  in the log, at level \<open>INFO\<close>; the disk is the one \<open>run\<close> left, so no result file is
  written; \<open>results\<close> and \<open>detected\<close> are still empty. The pipeline stops after the
  extraction: the stages entered are \<open>CREATED\<close>, \<open>EXTRACTING\<close> and \<open>EXTRACT_FAILED\<close>, not
  \<open>DETECTING\<close>, \<open>TIMELINING\<close> or \<open>PERSISTED\<close>, and the outcome is the same whatever
  \<open>check_indicators\<close> and \<open>serialize\<close> are.
\<close>

theorem run_module_database_not_found:
  assumes "log_call INFO Running_module [AStr (class_name (mdl s))] s = (None, s0)"
    and "run ops s0 = (Some DatabaseNotFoundError, s1)"
    and "log (mdl s1) = Some rs"
    and "results (mdl s1) = PList []"
    and "detected (mdl s1) = []"
  shows "\<exists>s'. run_module set_iter ops s = (None, s') \<and>
              s' = s1\<lparr>mdl := (mdl s1)\<lparr>log := Some (rs @ [(INFO, No_data_to_extract,
                        [AStr (class_name (mdl s1)), AExn DatabaseNotFoundError])])\<rparr>\<rparr> \<and>
              disk s' = disk s1 \<and> results (mdl s') = PList [] \<and> detected (mdl s') = [] \<and>
              run_module_staged set_iter ops s =
                ([CREATED, EXTRACTING, EXTRACT_FAILED], (None, s')) \<and>
              run_module set_iter (ops\<lparr>check_indicators := ci, serialize := sz\<rparr>) s = (None, s')"
  using assms
  by (simp add: run_module_def run_module_staged_def run_failed_def log_call_def
           split: option.splits)

text \<open>The example module without results, its \<open>run\<close> raising \<open>DatabaseNotFoundError\<close>.\<close>

theorem run_module_database_not_found_witness:
  "\<exists>s'. run_module remdups (run_raising DatabaseNotFoundError)
            (example_state\<lparr>mdl := example_module\<lparr>results := PList []\<rparr>\<rparr>) = (None, s') \<and>
        disk s' = example_disk \<and> results (mdl s') = PList [] \<and> detected (mdl s') = [] \<and>
        log (mdl s') = Some [(INFO, Running_module, [AStr ''ContactList'']),
                             (INFO, No_data_to_extract,
                              [AStr ''ContactList'', AExn DatabaseNotFoundError])]"
proof -
  let ?s = "example_state\<lparr>mdl := example_module\<lparr>results := PList []\<rparr>\<rparr>"
  let ?t = "?s\<lparr>mdl := (mdl ?s)\<lparr>log := Some [(INFO, Running_module, [AStr ''ContactList''])]\<rparr>\<rparr>"
  have a: "log_call INFO Running_module [AStr (class_name (mdl ?s))] ?s = (None, ?t)"
    by (simp add: log_call_def example_defs)
  have b: "run (run_raising DatabaseNotFoundError) ?t = (Some DatabaseNotFoundError, ?t)"
    by (simp add: example_defs)
  have c: "log (mdl ?t) = Some [(INFO, Running_module, [AStr ''ContactList''])]"
    by simp
  have d: "results (mdl ?t) = PList []" "detected (mdl ?t) = []"
    by (simp_all add: example_defs)
  from run_module_database_not_found [OF a b c d, where set_iter = remdups]
  show ?thesis by (auto simp: example_defs)
qed

text \<open>
  Claim C5 as stated has the pipeline reach the \<open>PERSISTED\<close> stage. On the example module
  without results, whose \<open>run\<close> raises \<open>DatabaseNotFoundError\<close>, the run ends in
  \<open>EXTRACT_FAILED\<close> and never enters \<open>PERSISTED\<close>: \<open>save_to_json\<close> is called in the
  \<^verbatim>\<open>else\<close> branch only. The same shows on the example module with its one result and its
  output folder: no file is written, where \<open>save_to_json\<close> would have written one.
\<close>

theorem run_module_database_not_found_counterexample:
  "run_module_staged remdups (run_raising DatabaseNotFoundError)
     (example_state\<lparr>mdl := example_module\<lparr>results := PList []\<rparr>\<rparr>) =
     ([CREATED, EXTRACTING, EXTRACT_FAILED],
      run_module remdups (run_raising DatabaseNotFoundError)
        (example_state\<lparr>mdl := example_module\<lparr>results := PList []\<rparr>\<rparr>)) \<and>
   PERSISTED \<notin> set (fst (run_module_staged remdups (run_raising DatabaseNotFoundError)
     (example_state\<lparr>mdl := example_module\<lparr>results := PList []\<rparr>\<rparr>))) \<and>
   files (disk (snd (run_module remdups
     (MVTModule_ops\<lparr>run := (\<lambda>s. (Some DatabaseNotFoundError, s))\<rparr>) example_state))) =
     Map.empty"
  by (simp add: run_module_staged_def run_module_def run_failed_def log_call_def example_defs)

text \<open>
  Claim C3, as amended. Let the module have a logger and let \<open>run\<close> raise
  \<open>DatabaseCorruptedError\<close>, leaving the state \<open>s1\<close>. Then \<open>run_module\<close> logs one record at
  level \<open>ERROR\<close> and returns normally: no exception reaches its caller, and the state it
  leaves is \<open>s1\<close> but for that record. \<open>check_indicators\<close>, \<open>to_timeline\<close> and \<open>save_to_json\<close>
  are not called: the outcome is the same whatever \<open>check_indicators\<close> and \<open>serialize\<close> are,
  and the disk is the one \<open>run\<close> left. The error record is all that tells the caller of the
  failure.
\<close>

theorem run_module_database_corrupted:
  assumes "log_call INFO Running_module [AStr (class_name (mdl s))] s = (None, s0)"
    and "run ops s0 = (Some DatabaseCorruptedError, s1)"
    and "log (mdl s1) = Some rs"
  shows "run_module set_iter ops s =
           (None, s1\<lparr>mdl := (mdl s1)\<lparr>log := Some (rs @ [(ERROR, Database_corrupted,
                        [AStr (class_name (mdl s1)), AExn DatabaseCorruptedError])])\<rparr>\<rparr>) \<and>
         run_module set_iter (ops\<lparr>check_indicators := ci, serialize := sz\<rparr>) s =
           run_module set_iter ops s"
  using assms
  by (simp add: run_module_def run_failed_def log_call_def split: option.splits)

text \<open>The example module, its \<open>run\<close> raising \<open>DatabaseCorruptedError\<close>.\<close>

theorem run_module_database_corrupted_witness:
  "fst (run_module remdups (run_raising DatabaseCorruptedError) example_state) = None \<and>
   log (mdl (snd (run_module remdups (run_raising DatabaseCorruptedError) example_state))) =
     Some [(INFO, Running_module, [AStr ''ContactList'']),
           (ERROR, Database_corrupted, [AStr ''ContactList'', AExn DatabaseCorruptedError])] \<and>
   run_module remdups
     ((run_raising DatabaseCorruptedError)\<lparr>check_indicators := (\<lambda>s. (None, s)),
                                            serialize := Inr\<rparr>) example_state =
     run_module remdups (run_raising DatabaseCorruptedError) example_state"
proof -
  let ?t = "example_state\<lparr>mdl := example_module\<lparr>log := Some
              [(INFO, Running_module, [AStr ''ContactList''])]\<rparr>\<rparr>"
  have a: "log_call INFO Running_module [AStr (class_name (mdl example_state))] example_state
             = (None, ?t)"
    by (simp add: log_call_def example_defs)
  have b: "run (run_raising DatabaseCorruptedError) ?t = (Some DatabaseCorruptedError, ?t)"
    by (simp add: example_defs)
  have c: "log (mdl ?t) = Some [(INFO, Running_module, [AStr ''ContactList''])]"
    by simp
  from run_module_database_corrupted
         [OF a b c, where set_iter = remdups and ci = "\<lambda>s. (None, s)" and sz = Inr]
  show ?thesis by (simp add: example_defs)
qed

text \<open>
  Claim C3 as stated says that the run is surfaced to the caller of \<open>run_module\<close> as a
  failure. On the example module with a corrupted database \<open>run_module\<close> returns to its
  caller as it does after a successful run, raising nothing; the module is as before but
  for the two log records.
\<close>

theorem run_module_database_corrupted_counterexample:
  "run_module remdups (run_raising DatabaseCorruptedError) example_state =
     (None, example_state\<lparr>mdl := example_module\<lparr>log := Some
        [(INFO, Running_module, [AStr ''ContactList'']),
         (ERROR, Database_corrupted, [AStr ''ContactList'', AExn DatabaseCorruptedError])]\<rparr>\<rparr>)"
  by (simp add: run_module_def run_failed_def log_call_def example_defs)

subsection \<open>run_module when check_indicators fails\<close>

text \<open>
  Claim C1, as amended. Let the module have a logger, let \<open>run\<close> return normally, and let
  \<open>check_indicators\<close> raise an exception other than \<open>NotImplementedError\<close>, leaving the
  state \<open>s2\<close>. Then \<open>run_module\<close> does not catch it: the exception leaves \<open>run_module\<close>
  with the state \<open>s2\<close>, nothing is logged about it, and neither \<open>to_timeline\<close> nor
  \<open>save_to_json\<close> is called. Whether sibling modules still run is up to the caller.
\<close>

theorem run_module_check_indicators_failure:
  assumes "log_call INFO Running_module [AStr (class_name (mdl s))] s = (None, s0)"
    and "run ops s0 = (None, s1)"
    and "check_indicators ops s1 = (Some e, s2)"
    and "e \<noteq> NotImplementedError"
  shows "run_module set_iter ops s = (Some e, s2)"
  using assms
  by (simp add: run_module_def run_succeeded_def check_indicators_step_def)

text \<open>The example module, its \<open>check_indicators\<close> raising an exception \<open>boom\<close>.\<close>

theorem run_module_check_indicators_failure_witness:
  "fst (run_module remdups (check_raising (OtherException ''boom'')) example_state) =
     Some (OtherException ''boom'')"
proof -
  let ?t = "example_state\<lparr>mdl := example_module\<lparr>log := Some
              [(INFO, Running_module, [AStr ''ContactList''])]\<rparr>\<rparr>"
  have a: "log_call INFO Running_module [AStr (class_name (mdl example_state))] example_state
             = (None, ?t)"
    by (simp add: log_call_def example_defs)
  have b: "run (check_raising (OtherException ''boom'')) ?t = (None, ?t)"
    by (simp add: example_defs)
  have c: "check_indicators (check_raising (OtherException ''boom'')) ?t
             = (Some (OtherException ''boom''), ?t)"
    by (simp add: example_defs)
  have d: "OtherException ''boom'' \<noteq> NotImplementedError"
    by simp
  from run_module_check_indicators_failure [OF a b c d, where set_iter = remdups]
  show ?thesis by simp
qed

text \<open>
  Claim C1 as stated says that the failure never leaves \<open>run_module\<close>. On the example
  module, whose \<open>run\<close> succeeds and whose \<open>check_indicators\<close> raises \<open>boom\<close>, \<open>run_module\<close>
  raises \<open>boom\<close>; the log holds the first record only.
\<close>

theorem run_module_check_indicators_failure_counterexample:
  "run_module remdups (check_raising (OtherException ''boom'')) example_state =
     (Some (OtherException ''boom''),
      example_state\<lparr>mdl := example_module\<lparr>log := Some
        [(INFO, Running_module, [AStr ''ContactList''])]\<rparr>\<rparr>)"
  by (simp add: run_module_def run_succeeded_def check_indicators_step_def log_call_def
        example_defs)

subsection \<open>The default of results is one shared list\<close>

text \<open>
  Claim C2 fails on the code. Two instances \<open>a\<close> and \<open>b\<close> are built one after the other
  without a \<open>results\<close> argument. Appending \<open>x\<close> to the \<open>results\<close> of \<open>a\<close> changes the
  \<open>results\<close> of \<open>b\<close> from \<open>[]\<close> to \<open>[x]\<close>: both attributes refer to the one default
  list. \<open>detected\<close> is a list of its own in each: appending \<open>y\<close> to that of \<open>a\<close> leaves
  that of \<open>b\<close> empty.
\<close>

theorem shared_default_results:
  "(let (dflt, h0) = class_heap;
        (a, h1) = init_accumulators dflt None h0;
        (b, h2) = init_accumulators dflt None h1;
        h3 = list_append (results_at a) x h2;
        h4 = list_append (detected_at a) y h3
    in cells h2 (results_at b) = Some [] \<and> cells h3 (results_at b) = Some [x] \<and>
       cells h3 (detected_at b) = Some [] \<and> cells h4 (detected_at b) = Some [] \<and>
       cells h4 (detected_at a) = Some [y])"
  by (simp add: class_heap_def init_accumulators_def new_list_def list_append_def Let_def)

subsection \<open>save_timeline\<close>

lemma all_right_map:
  "(\<And>x. x \<in> set xs \<Longrightarrow> f x = Inr (g x)) \<Longrightarrow> all_right (map f xs) = Inr (map g xs)"
  by (induction xs) auto

lemma insort_key_map:
  "insort_key f (g x) (map g ys) = map g (insort_key (\<lambda>y. f (g y)) x ys)"
  by (induction ys) auto

lemma sort_key_map: "sort_key f (map g xs) = map g (sort_key (\<lambda>y. f (g y)) xs)"
  by (induction xs) (auto simp: insort_key_map)

lemma zip_map_self: "zip (map f xs) xs = map (\<lambda>y. (f y, y)) xs"
  by (induction xs) auto

lemma sort_key_short: "length xs \<le> 1 \<Longrightarrow> sort_key f xs = xs"
  by (cases xs) auto

lemma sorted_by_key_strings:
  "sorted_by_key (zip (map (\<lambda>x. PStr (k x)) xs) xs) = Inr (sort_key k xs)"
proof -
  have z: "zip (map (\<lambda>x. PStr (k x)) xs) xs = map (\<lambda>y. (PStr (k y), y)) xs"
    by (rule zip_map_self)
  have s: "map snd (sort_key (\<lambda>kx. str_of_key (fst kx)) (map (\<lambda>y. (PStr (k y), y)) xs)) =
           sort_key k xs"
    by (simp add: sort_key_map comp_def)
  show ?thesis
  proof (cases "length xs \<le> 1")
    case True
    then show ?thesis
      by (simp add: sorted_by_key_def z comp_def sort_key_short)
  next
    case False
    then show ?thesis
      using s by (simp add: sorted_by_key_def z list_all_iff)
  qed
qed

lemma save_timeline_rows:
  assumes "open_error fs timeline_path = None"
    and "write_error fs timeline_path = None"
    and "files fs timeline_path = None \<and> old = [] \<or> files fs timeline_path = Some (CsvRows old)"
    and "\<And>x. x \<in> set tline \<Longrightarrow> timestamp_key x = Inr (PStr (k x))"
  shows "save_timeline tline timeline_path fs =
           (None, fs\<lparr>files := (files fs)(timeline_path \<mapsto>
              CsvRows (old @ csv_header # map csv_row (sort_key k tline)))\<rparr>)"
proof -
  have keys: "all_right (map timestamp_key tline) = Inr (map (\<lambda>x. PStr (k x)) tline)"
    using assms(4) by (rule all_right_map)
  show ?thesis
    using assms(1,2,3)
    by (auto simp: save_timeline_def write_timeline_def close_file_def append_rows_def keys
        sorted_by_key_strings Let_def)
qed

text \<open>
  Claim C7. Let every entry of the timeline be a dictionary whose \<open>timestamp\<close> is \<open>None\<close>
  or a string, and let the file at \<open>timeline_path\<close>, which is missing or holds the rows
  \<open>old\<close>, open and take writes. Then \<open>save_timeline\<close> returns normally and the file
  holds \<open>old\<close>, then the header row \<open>UTC Timestamp, Plugin, Event, Description\<close>, then one
  row per entry, made of the entry's \<open>timestamp\<close>, \<open>module\<close>, \<open>event\<close> and \<open>data\<close> (\<open>None\<close>
  for a missing one): the file is appended to. The rows are those of the entries given,
  each as often as it was given, in the stable ascending order of the key that is the
  timestamp string, or the empty string when the timestamp is \<open>None\<close>. So the keys ascend
  along the rows, and a row whose timestamp is \<open>None\<close> stands before every row whose
  timestamp is a non-empty string.
\<close>

theorem save_timeline_sorted_append:
  assumes "open_error fs timeline_path = None"
    and "write_error fs timeline_path = None"
    and "files fs timeline_path = None \<and> old = [] \<or> files fs timeline_path = Some (CsvRows old)"
    and "\<forall>x \<in> set tline. \<exists>kvs ts. x = PDict kvs \<and>
           (map_of kvs ''timestamp'' = Some PNone \<or> map_of kvs ''timestamp'' = Some (PStr ts))"
  shows "let key = (\<lambda>x. case x of
                       PDict kvs \<Rightarrow>
                         (case map_of kvs ''timestamp'' of Some (PStr ts) \<Rightarrow> ts | _ \<Rightarrow> [])
                     | _ \<Rightarrow> []);
             row = (\<lambda>x. case x of
                       PDict kvs \<Rightarrow>
                         map (\<lambda>k. case map_of kvs k of None \<Rightarrow> PNone | Some v \<Rightarrow> v)
                           [''timestamp'', ''module'', ''event'', ''data'']
                     | _ \<Rightarrow> [])
         in \<exists>events.
              save_timeline tline timeline_path fs =
                (None, fs\<lparr>files := (files fs)(timeline_path \<mapsto>
                   CsvRows (old @ [PStr ''UTC Timestamp'', PStr ''Plugin'', PStr ''Event'',
                                   PStr ''Description''] # map row events))\<rparr>) \<and>
              events = sort_key key tline \<and>
              mset events = mset tline \<and>
              sorted (map key events) \<and>
              (\<forall>i j ts. i < length events \<and> j < length events \<and>
                 hd (row (events ! i)) = PNone \<and> hd (row (events ! j)) = PStr ts \<and> ts \<noteq> []
                 \<longrightarrow> i < j)"
proof -
  let ?key = "\<lambda>x. case x of
                PDict kvs \<Rightarrow> (case map_of kvs ''timestamp'' of Some (PStr ts) \<Rightarrow> ts | _ \<Rightarrow> [])
              | _ \<Rightarrow> []"
  let ?row = "\<lambda>x. case x of
                PDict kvs \<Rightarrow>
                  map (\<lambda>k. case map_of kvs k of None \<Rightarrow> PNone | Some v \<Rightarrow> v)
                    [''timestamp'', ''module'', ''event'', ''data'']
              | _ \<Rightarrow> []"
  let ?events = "sort_key ?key tline"
  have k: "timestamp_key x = Inr (PStr (?key x))" if "x \<in> set tline" for x
    using assms(4) that by (fastforce simp: timestamp_key_def)
  have r: "csv_row x = ?row x" if "x \<in> set tline" for x
    using assms(4) that by (fastforce simp: csv_row_def dict_get_def)
  have rows: "map csv_row ?events = map ?row ?events"
    by (rule map_cong) (simp_all add: r)
  have saved: "save_timeline tline timeline_path fs =
      (None, fs\<lparr>files := (files fs)(timeline_path \<mapsto>
         CsvRows (old @ [PStr ''UTC Timestamp'', PStr ''Plugin'', PStr ''Event'',
                         PStr ''Description''] # map ?row ?events))\<rparr>)"
    using save_timeline_rows [OF assms(1,2,3), where k = ?key and tline = tline] k
    by (simp only: rows csv_header_def)
  have srt: "sorted (map ?key ?events)"
    by (rule sorted_sort_key)
  have none_key: "?key x = []" if "x \<in> set tline" "hd (?row x) = PNone" for x
    using assms(4) that by fastforce
  have str_key: "?key x = ts" if "x \<in> set tline" "hd (?row x) = PStr ts" for x ts
    using assms(4) that by fastforce
  have first: "i < j"
    if "i < length ?events" "j < length ?events" "hd (?row (?events ! i)) = PNone"
      "hd (?row (?events ! j)) = PStr ts" "ts \<noteq> []" for i j ts
  proof (rule ccontr)
    assume "\<not> i < j"
    then have "j \<le> i" by simp
    have mi: "?events ! i \<in> set tline" and mj: "?events ! j \<in> set tline"
      using that(1,2) nth_mem [of i ?events] nth_mem [of j ?events] by simp_all
    have ki: "?key (?events ! i) = []" using none_key [OF mi that(3)] .
    have kj: "?key (?events ! j) = ts" using str_key [OF mj that(4)] .
    have "map ?key ?events ! j \<le> map ?key ?events ! i"
      using srt \<open>j \<le> i\<close> that(1) by (intro sorted_nth_mono) simp_all
    then have "?key (?events ! j) \<le> ?key (?events ! i)"
      using that(1,2) by simp
    then have "ts \<le> []" by (simp only: ki kj)
    then show False using that(5) by simp
  qed
  have "save_timeline tline timeline_path fs =
          (None, fs\<lparr>files := (files fs)(timeline_path \<mapsto>
             CsvRows (old @ [PStr ''UTC Timestamp'', PStr ''Plugin'', PStr ''Event'',
                             PStr ''Description''] # map ?row ?events))\<rparr>) \<and>
        ?events = sort_key ?key tline \<and>
        mset ?events = mset tline \<and>
        sorted (map ?key ?events) \<and>
        (\<forall>i j ts. i < length ?events \<and> j < length ?events \<and>
           hd (?row (?events ! i)) = PNone \<and> hd (?row (?events ! j)) = PStr ts \<and> ts \<noteq> []
           \<longrightarrow> i < j)"
    using saved srt first by (simp only: mset_sort refl simp_thms) blast
  then show ?thesis
    unfolding Let_def by (rule exI [of _ ?events])
qed

text \<open>
  The entries with the timestamps \<open>2023-01-02\<close>, \<open>None\<close>, \<open>2023-01-01\<close>, saved to a file
  that an earlier run left with its header row: the rows come out in the order \<open>None\<close>,
  \<open>2023-01-01\<close>, \<open>2023-01-02\<close>, after the old row and the new header.
\<close>

theorem save_timeline_sorted_append_witness:
  "save_timeline
     [PDict [(''timestamp'', PStr ''2023-01-02''), (''module'', PStr ''ContactList''),
             (''event'', PStr ''contact_added''), (''data'', PStr ''Alice'')],
      PDict [(''timestamp'', PNone), (''module'', PStr ''ContactList''),
             (''event'', PStr ''contact_added''), (''data'', PStr ''Bob'')],
      PDict [(''timestamp'', PStr ''2023-01-01''), (''module'', PStr ''ContactList''),
             (''event'', PStr ''contact_added''), (''data'', PStr ''Carol'')]]
     ''timeline.csv''
     (example_disk\<lparr>files := [''timeline.csv'' \<mapsto>
        CsvRows [[PStr ''UTC Timestamp'', PStr ''Plugin'', PStr ''Event'',
                  PStr ''Description'']]]\<rparr>) =
   (None, example_disk\<lparr>files := [''timeline.csv'' \<mapsto>
      CsvRows [[PStr ''UTC Timestamp'', PStr ''Plugin'', PStr ''Event'', PStr ''Description''],
               [PStr ''UTC Timestamp'', PStr ''Plugin'', PStr ''Event'', PStr ''Description''],
               [PNone, PStr ''ContactList'', PStr ''contact_added'', PStr ''Bob''],
               [PStr ''2023-01-01'', PStr ''ContactList'', PStr ''contact_added'',
                PStr ''Carol''],
               [PStr ''2023-01-02'', PStr ''ContactList'', PStr ''contact_added'',
                PStr ''Alice'']]]\<rparr>)"
proof -
  let ?tline =
    "[PDict [(''timestamp'', PStr ''2023-01-02''), (''module'', PStr ''ContactList''),
             (''event'', PStr ''contact_added''), (''data'', PStr ''Alice'')],
      PDict [(''timestamp'', PNone), (''module'', PStr ''ContactList''),
             (''event'', PStr ''contact_added''), (''data'', PStr ''Bob'')],
      PDict [(''timestamp'', PStr ''2023-01-01''), (''module'', PStr ''ContactList''),
             (''event'', PStr ''contact_added''), (''data'', PStr ''Carol'')]]"
  let ?old = "[[PStr ''UTC Timestamp'', PStr ''Plugin'', PStr ''Event'', PStr ''Description'']]"
  let ?fs = "example_disk\<lparr>files := [''timeline.csv'' \<mapsto> CsvRows ?old]\<rparr>"
  have a: "open_error ?fs ''timeline.csv'' = None" "write_error ?fs ''timeline.csv'' = None"
    by (simp_all add: example_disk_def)
  have b: "files ?fs ''timeline.csv'' = None \<and> ?old = [] \<or>
           files ?fs ''timeline.csv'' = Some (CsvRows ?old)"
    by simp
  have c: "\<forall>x \<in> set ?tline. \<exists>kvs ts. x = PDict kvs \<and>
             (map_of kvs ''timestamp'' = Some PNone \<or>
              map_of kvs ''timestamp'' = Some (PStr ts))"
    by simp
  from save_timeline_sorted_append [OF a b c]
  show ?thesis
    by (simp add: Let_def example_disk_def)
qed

subsection \<open>Encoding with default=str\<close>

lemma all_some_map:
  "(\<And>x. x \<in> set xs \<Longrightarrow> f x = Some (g x)) \<Longrightarrow> all_some (map f xs) = Some (map g xs)"
  by (induction xs) auto

lemma zip_map_fst_map: "zip (map fst kvs) (map g kvs) = map (\<lambda>kv. (fst kv, g kv)) kvs"
  by (induction kvs) auto

lemma json_encode_default: "json_encode True sk v = Some (json_of sk v)"
proof (induction v)
  case (PList xs)
  then show ?case by (simp add: all_some_map)
next
  case (PTuple xs)
  then show ?case by (simp add: all_some_map)
next
  case (PDict kvs)
  have "all_some (map (\<lambda>kv. json_encode True sk (snd kv)) kvs)
          = Some (map (\<lambda>kv. json_of sk (snd kv)) kvs)"
    by (rule all_some_map) (use PDict in \<open>auto simp: snds.simps\<close>)
  then show ?case by (simp add: zip_map_fst_map)
qed simp_all

subsection \<open>save_to_json when a file cannot be written\<close>

lemma contact_list_slug:
  "slug m = None \<Longrightarrow> class_name m = ''ContactList'' \<Longrightarrow> get_slug m = ''contact_list''"
  by (simp add: get_slug_def str_lower_def char_class_defs)

lemma example_paths:
  "os_path_join ''out'' ''contact_list.json'' = ''out/contact_list.json''"
  "os_path_join ''out'' ''contact_list_detected.json'' = ''out/contact_list_detected.json''"
  by (simp_all add: os_path_join_def)

lemma result_paths_differ:
  "os_path_join folder (name @ ''.json'') \<noteq> os_path_join folder (name @ ''_detected.json'')"
  by (cases name) (auto simp: os_path_join_def)







subsection \<open>Saving results and loading them back\<close>

lemma dict_set_fresh: "k \<notin> fst ` set d \<Longrightarrow> dict_set d k v = d @ [(k, v)]"
  by (induction d) auto

lemma foldl_dict_set_distinct:
  "distinct (map fst (acc @ kvs)) \<Longrightarrow>
     foldl (\<lambda>d kv. dict_set d (fst kv) (snd kv)) acc kvs = acc @ kvs"
proof (induction kvs arbitrary: acc)
  case Nil
  then show ?case by simp
next
  case (Cons kv kvs)
  have fresh: "fst kv \<notin> fst ` set acc"
    using Cons.prems by auto
  have "distinct (map fst ((acc @ [kv]) @ kvs))"
    using Cons.prems by simp
  from Cons.IH [OF this] show ?case
    by (simp add: dict_set_fresh [OF fresh])
qed

lemma dict_of_items_distinct: "distinct (map fst kvs) \<Longrightarrow> dict_of_items kvs = kvs"
  using foldl_dict_set_distinct [of "[]" kvs] by (simp add: dict_of_items_def)

lemma json_decode_json_of:
  "json_native v \<Longrightarrow> wf_pyval v \<Longrightarrow> json_decode (json_of False v) = v"
proof (induction v)
  case (PList xs)
  then show ?case by (simp add: list_all_iff map_idI)
next
  case (PDict kvs)
  have vals: "map (\<lambda>kv. (fst kv, json_decode (json_of False (snd kv)))) kvs = kvs"
    by (rule map_idI) (use PDict in \<open>auto simp: list_all_iff snds.simps\<close>)
  have "zip (map fst (map (\<lambda>kv. (fst kv, json_of False (snd kv))) kvs))
            (map (\<lambda>kv. json_decode (snd kv)) (map (\<lambda>kv. (fst kv, json_of False (snd kv))) kvs))
          = map (\<lambda>kv. (fst kv, json_decode (json_of False (snd kv)))) kvs"
    by (induction kvs) auto
  with vals PDict.prems show ?case
    by (simp add: dict_of_items_distinct)
qed simp_all

lemma save_detected_file_frame:
  "p \<noteq> os_path_join folder (name @ ''_detected.json'') \<Longrightarrow>
     files (disk (snd (save_detected_file folder name s))) p = files (disk s) p \<and>
     open_error (disk (snd (save_detected_file folder name s))) = open_error (disk s)"
  by (auto simp: save_detected_file_def leave_with_def close_file_def json_dump_def
        json_encode_default Let_def
        simp del: json_encode.simps json_of.simps split: option.splits write_failure.splits)

lemma save_results_file_ok:
  assumes "open_error (disk s) (os_path_join folder (name @ ''.json'')) = None"
    and "write_error (disk s) (os_path_join folder (name @ ''.json'')) = None"
  shows "save_results_file folder name s =
           (None, s\<lparr>disk := (disk s)\<lparr>files := (files (disk s))
              (os_path_join folder (name @ ''.json'') \<mapsto>
                 JsonText (json_of False (results (mdl s))))\<rparr>\<rparr>)"
  using assms
  by (simp add: save_results_file_def leave_with_def close_file_def json_dump_def
        json_encode_default Let_def del: json_encode.simps json_of.simps)

lemma example_state_slug:
  "get_slug (mdl (example_state\<lparr>mdl := example_module\<lparr>results := r\<rparr>\<rparr>)) = ''contact_list''"
  by (rule contact_list_slug) (simp_all add: example_defs)

lemma example_module_fields:
  "output_folder example_module = Some ''out''" "detected example_module = []"
  "class_name example_module = ''ContactList''" "slug example_module = None"
  "log example_module = Some []" "results example_module = PList [example_entry]"
  "disk example_state = example_disk" "mdl example_state = example_module"
  by (simp_all add: example_defs)

text \<open>
  Claim C9, as amended. Take a module with an output folder whose \<open>results\<close> is a non-empty
  list of values that JSON represents without loss (\<open>None\<close>, booleans, integers, strings,
  lists of such and dictionaries of such keyed by strings, with no tuple and no other
  object anywhere), and let the results file open and take the write. After \<open>save_to_json\<close>,
  whatever becomes of the detected file, \<open>from_json\<close> on the results file returns a module
  whose \<open>results\<close> equals the original, with or without a logger.
\<close>

theorem save_to_json_from_json_roundtrip:
  assumes "output_folder (mdl s) = Some folder" and "folder \<noteq> []"
    and "results (mdl s) = PList xs" and "xs \<noteq> []"
    and "list_all json_native xs" and "list_all wf_pyval xs"
    and "path = os_path_join folder (get_slug (mdl s) @ ''.json'')"
    and "open_error (disk s) path = None" and "write_error (disk s) path = None"
  shows "\<exists>m'. from_json cls cls_slug path lg (disk (snd (save_to_json s))) = Inr m' \<and>
              results m' = results (mdl s)"
proof -
  let ?name = "get_slug (mdl s)"
  let ?s1 = "s\<lparr>disk := (disk s)\<lparr>files := (files (disk s))
               (path \<mapsto> JsonText (json_of False (PList xs)))\<rparr>\<rparr>"
  have r: "save_results_file folder ?name s = (None, ?s1)"
    using save_results_file_ok [of s folder ?name] assms(3,7,8,9) by simp
  have decoded: "json_decode (json_of False (PList xs)) = PList xs"
    using assms(5,6) by (intro json_decode_json_of) simp_all
  have d: "files (disk (snd (save_to_json s))) path = Some (JsonText (json_of False (PList xs))) \<and>
           open_error (disk (snd (save_to_json s))) = open_error (disk s)"
  proof (cases "detected (mdl s) = []")
    case True
    then show ?thesis
      using assms(1,2,3,4) r by (simp add: save_to_json_def)
  next
    case False
    have "save_to_json s = save_detected_file folder ?name ?s1"
      using assms(1,2,3,4) r False by (simp add: save_to_json_def)
    moreover have "path \<noteq> os_path_join folder (?name @ ''_detected.json'')"
      unfolding assms(7) by (rule result_paths_differ)
    ultimately show ?thesis
      using save_detected_file_frame [of path folder ?name ?s1] by simp
  qed
  show ?thesis
  proof (cases lg)
    case None
    then show ?thesis
      using d assms(3,8) decoded
      by (simp add: from_json_def MVTModule_init_def del: json_of.simps json_decode.simps)
  next
    case (Some rs)
    then show ?thesis
      using d assms(3,8) decoded
      by (simp add: from_json_def MVTModule_init_def del: json_of.simps json_decode.simps)
  qed
qed

text \<open>The example module: its one entry is a dictionary of four strings.\<close>

theorem save_to_json_from_json_roundtrip_witness:
  "\<exists>m'. from_json ''ContactList'' None ''out/contact_list.json'' None
            (disk (snd (save_to_json example_state))) = Inr m' \<and>
        results m' = PList [example_entry]"
proof -
  have a: "output_folder (mdl example_state) = Some ''out''" "''out'' \<noteq> []"
          "results (mdl example_state) = PList [example_entry]" "[example_entry] \<noteq> []"
          "list_all json_native [example_entry]" "list_all wf_pyval [example_entry]"
    by (simp_all add: example_defs)
  have b: "''out/contact_list.json'' =
             os_path_join ''out'' (get_slug (mdl example_state) @ ''.json'')"
    using example_state_slug [of "PList [example_entry]"]
    by (simp add: os_path_join_def example_defs)
  have c: "open_error (disk example_state) ''out/contact_list.json'' = None"
          "write_error (disk example_state) ''out/contact_list.json'' = None"
    by (simp_all add: example_defs)
  from save_to_json_from_json_roundtrip [OF a b c, where cls = "''ContactList''"
         and cls_slug = None and lg = None]
  show ?thesis using a(3) by simp
qed

text \<open>
  Claim C9 as stated fails for a result that holds an object JSON has no form for, such
  as a \<open>datetime\<close>: \<open>default=str\<close> writes it as its string, and the string is what
  \<open>from_json\<close> loads. The reloaded \<open>results\<close> differs from the original.
\<close>

theorem save_to_json_from_json_roundtrip_counterexample:
  "from_json ''ContactList'' None ''out/contact_list.json'' None
     (disk (snd (save_to_json (example_state\<lparr>mdl := example_module\<lparr>results :=
        PList [PDict [(''timestamp'', PObj ''2023-01-02 10:00:00'')]]\<rparr>\<rparr>)))) =
     Inr (MVTModule_init ''ContactList'' None None None None False None
            (PList [PDict [(''timestamp'', PStr ''2023-01-02 10:00:00'')]])) \<and>
   results (mdl (example_state\<lparr>mdl := example_module\<lparr>results :=
        PList [PDict [(''timestamp'', PObj ''2023-01-02 10:00:00'')]]\<rparr>\<rparr>)) \<noteq>
     PList [PDict [(''timestamp'', PStr ''2023-01-02 10:00:00'')]]"
proof -
  let ?r = "PList [PDict [(''timestamp'', PObj ''2023-01-02 10:00:00'')]]"
  let ?t = "example_state\<lparr>mdl := example_module\<lparr>results := ?r\<rparr>\<rparr>"
  have saved: "disk (snd (save_to_json ?t)) =
          example_disk\<lparr>files := [''out/contact_list.json'' \<mapsto>
             JsonText (JArr [JObj [(''timestamp'', JStr ''2023-01-02 10:00:00'')]])]\<rparr>"
    by (simp add: save_to_json_def save_results_file_def leave_with_def close_file_def
          json_dump_def example_module_fields contact_list_slug example_paths
          example_disk_def Let_def)
  show ?thesis
    unfolding saved
    by (simp add: from_json_def example_disk_def dict_of_items_def)
qed

subsection \<open>timeline_deduplicate\<close>

lemma all_some_length: "all_some xs = Some ys \<Longrightarrow> length ys = length xs"
proof (induction xs arbitrary: ys)
  case Nil
  then show ?case by simp
next
  case (Cons x xs)
  then show ?case by (cases x) (auto split: option.splits)
qed

lemma all_some_Some: "all_some xs = Some ys \<Longrightarrow> xs = map Some ys"
proof (induction xs arbitrary: ys)
  case Nil
  then show ?case by simp
next
  case (Cons x xs)
  then show ?case by (cases x) (auto split: option.splits)
qed

lemma all_some_map_Some: "all_some (map Some ys) = Some ys"
  by (induction ys) auto

lemma all_some_elem:
  assumes "all_some (map f xs) = Some js" and "j \<in> set js"
  shows "\<exists>x \<in> set xs. f x = Some j"
proof -
  have "map f xs = map Some js"
    using assms(1) by (rule all_some_Some)
  then have "Some j \<in> set (map f xs)"
    using assms(2) by simp
  then show ?thesis by auto
qed

lemma zip_fst_decode:
  "zip (map fst S) (map (\<lambda>kv. json_decode (snd kv)) S)
     = map (\<lambda>kj. (fst kj, json_decode (snd kj))) S"
  by (induction S) auto

lemma dump_canonical:
  "wf_pyval v \<Longrightarrow> json_encode False True v = Some j \<Longrightarrow>
     json_encode False True (json_decode j) = Some j \<and> wf_pyval (json_decode j)"
proof (induction v arbitrary: j)
  case (PList xs)
  from PList.prems(2) obtain js where js: "all_some (map (json_encode False True) xs) = Some js"
    and j: "j = JArr js"
    by auto
  have ih: "json_encode False True (json_decode y) = Some y \<and> wf_pyval (json_decode y)"
    if "y \<in> set js" for y
  proof -
    from all_some_elem [OF js that] obtain x where "x \<in> set xs" "json_encode False True x = Some y"
      by blast
    with PList.IH [of x y] PList.prems(1) show ?thesis by (simp add: list_all_iff)
  qed
  have "all_some (map (\<lambda>y. json_encode False True (json_decode y)) js) = Some (map (\<lambda>y. y) js)"
    by (rule all_some_map) (simp add: ih)
  then show ?case
    using ih by (simp add: j comp_def list_all_iff)
next
  case (PTuple xs)
  from PTuple.prems(2) obtain js where js: "all_some (map (json_encode False True) xs) = Some js"
    and j: "j = JArr js"
    by auto
  have ih: "json_encode False True (json_decode y) = Some y \<and> wf_pyval (json_decode y)"
    if "y \<in> set js" for y
  proof -
    from all_some_elem [OF js that] obtain x where "x \<in> set xs" "json_encode False True x = Some y"
      by blast
    with PTuple.IH [of x y] PTuple.prems(1) show ?thesis by (simp add: list_all_iff)
  qed
  have "all_some (map (\<lambda>y. json_encode False True (json_decode y)) js) = Some (map (\<lambda>y. y) js)"
    by (rule all_some_map) (simp add: ih)
  then show ?case
    using ih by (simp add: j comp_def list_all_iff)
next
  case (PDict kvs)
  from PDict.prems(2) obtain vs
    where vs: "all_some (map (\<lambda>kv. json_encode False True (snd kv)) kvs) = Some vs"
      and j: "j = JObj (sort_key fst (zip (map fst kvs) vs))"
    by auto
  let ?S = "sort_key fst (zip (map fst kvs) vs)"
  let ?K = "map (\<lambda>kj. (fst kj, json_decode (snd kj))) ?S"
  have len: "length vs = length kvs"
    using all_some_length [OF vs] by simp
  have ih: "json_encode False True (json_decode (snd kj)) = Some (snd kj) \<and>
            wf_pyval (json_decode (snd kj))" if "kj \<in> set ?S" for kj
  proof -
    from that have "(fst kj, snd kj) \<in> set (zip (map fst kvs) vs)"
      by (simp only: set_sort prod.collapse)
    then have "snd kj \<in> set vs"
      by (rule set_zip_rightD)
    from all_some_elem [OF vs this] obtain kv
      where kv: "kv \<in> set kvs" "json_encode False True (snd kv) = Some (snd kj)"
      by blast
    have "wf_pyval (snd kv)"
      using PDict.prems(1) kv(1) by (simp add: list_all_iff)
    with PDict.IH [of kv "snd kv" "snd kj"] kv show ?thesis
      by (simp add: snds.simps)
  qed
  have "mset (map fst ?S) = mset (map fst (zip (map fst kvs) vs))"
    by simp
  also have "map fst (zip (map fst kvs) vs) = map fst kvs"
    using len by (simp add: map_fst_zip)
  finally have "distinct (map fst ?S) = distinct (map fst kvs)"
    by (rule mset_eq_imp_distinct_iff)
  then have dS: "distinct (map fst ?S)"
    using PDict.prems(1) by simp
  have "json_decode (JObj ?S) = PDict (dict_of_items ?K)"
    by (simp only: json_decode.simps zip_fst_decode)
  moreover have fK: "map fst ?K = map fst ?S"
    by (simp only: map_map comp_def fst_conv)
  ultimately have dec: "json_decode (JObj ?S) = PDict ?K"
    using dS dict_of_items_distinct [of ?K] by (simp only:)
  have "all_some (map (\<lambda>kj. json_encode False True (json_decode (snd kj))) ?S) =
          Some (map snd ?S)"
    by (rule all_some_map) (simp only: ih)
  then have vals: "all_some (map (\<lambda>kv. json_encode False True (snd kv)) ?K) = Some (map snd ?S)"
    by (simp only: map_map comp_def snd_conv)
  have srt: "sort_key fst ?S = ?S"
    by (rule sort_key_id_if_sorted) (simp only: sorted_sort_key)
  have "json_encode False True (PDict ?K) =
          Some (JObj (sort_key fst (zip (map fst ?K) (map snd ?S))))"
    by (simp only: json_encode.simps vals option.map if_True)
  then have fixed: "json_encode False True (PDict ?K) = Some (JObj ?S)"
    by (simp only: fK zip_map_fst_snd srt)
  have "list_all (\<lambda>kv. wf_pyval (snd kv)) ?K"
    unfolding list_all_iff using ih by (auto simp only: set_map snd_conv)
  then have wf: "wf_pyval (PDict ?K)"
    using dS by (simp only: wf_pyval.simps fK simp_thms)
  show ?case
    by (simp only: j dec fixed wf simp_thms)
qed auto

lemma valid_set_iter_length:
  assumes "valid_set_iter set_iter"
  shows "length (set_iter xs) \<le> length xs"
proof -
  have "length (set_iter xs) = card (set xs)"
    using assms distinct_card [of "set_iter xs"] by (simp add: valid_set_iter_def)
  then show ?thesis by (simp add: card_length)
qed

lemma timeline_deduplicate_length:
  assumes "valid_set_iter set_iter" and "timeline_deduplicate set_iter T = Inr D"
  shows "length D \<le> length T"
proof -
  from assms(2) obtain dumps where d: "all_some (map (json_encode False True) T) = Some dumps"
    and D: "D = map json_decode (set_iter dumps)"
    by (auto simp: timeline_deduplicate_def split: option.splits)
  have "length dumps = length T"
    using all_some_length [OF d] by simp
  with valid_set_iter_length [OF assms(1), of dumps] D show ?thesis by simp
qed

lemma json_encode_native: "json_native v \<Longrightarrow> json_encode d sk v = Some (json_of sk v)"
proof (induction v)
  case (PList xs)
  then show ?case by (simp add: all_some_map list_all_iff)
next
  case (PDict kvs)
  have "all_some (map (\<lambda>kv. json_encode d sk (snd kv)) kvs)
          = Some (map (\<lambda>kv. json_of sk (snd kv)) kvs)"
    by (rule all_some_map) (use PDict in \<open>auto simp: snds.simps list_all_iff\<close>)
  then show ?case by (simp add: zip_map_fst_map)
qed simp_all

lemma timeline_deduplicate_native:
  assumes "list_all json_native T"
  shows "timeline_deduplicate set_iter T = Inr (map json_decode (set_iter (map (json_of True) T)))"
proof -
  have "all_some (map (json_encode False True) T) = Some (map (json_of True) T)"
    by (rule all_some_map) (use assms in \<open>simp add: list_all_iff json_encode_native\<close>)
  then show ?thesis by (simp add: timeline_deduplicate_def)
qed

lemma scalar_json_inj:
  "is_scalar u \<Longrightarrow> is_scalar v \<Longrightarrow> json_of True u = json_of True v \<Longrightarrow> u = v"
  by (cases u; cases v) simp_all

lemma scalar_native: "is_scalar v \<Longrightarrow> json_native v"
  by (cases v) simp_all

lemma filter_key_distinct:
  "distinct (map f xs) \<Longrightarrow> k \<in> set xs \<Longrightarrow> filter (\<lambda>x. f k = f x) xs = [k]"
proof (induction xs)
  case Nil
  then show ?case by simp
next
  case (Cons x xs)
  show ?case
  proof (cases "k = x")
    case True
    have "filter (\<lambda>y. f x = f y) xs = []"
      using Cons.prems(1) by (auto simp: filter_empty_conv)
    with True show ?thesis by simp
  next
    case False
    with Cons.prems have kxs: "k \<in> set xs" by simp
    have "f x \<notin> f ` set xs"
      using Cons.prems(1) by simp
    with kxs have "f k \<noteq> f x"
      by (metis imageI)
    with kxs Cons show ?thesis by simp
  qed
qed

lemma sort_key_distinct_unique:
  assumes "mset xs = mset ys" and "distinct (map f xs)"
  shows "sort_key f xs = sort_key f ys"
proof (rule properties_for_sort_key)
  show "mset (sort_key f ys) = mset xs"
    using assms(1) by simp
  show "sorted (map f (sort_key f ys))"
    by simp
  fix k assume k: "k \<in> set (sort_key f ys)"
  have dy: "distinct (map f ys)"
    using assms by (metis mset_eq_imp_distinct_iff mset_map)
  have "mset (map f (sort_key f ys)) = mset (map f ys)"
    by simp
  then have ds: "distinct (map f (sort_key f ys))"
    using dy by (metis mset_eq_imp_distinct_iff)
  have kx: "k \<in> set xs"
    using k assms(1) by (metis mset_eq_setD set_sort)
  show "filter (\<lambda>x. f k = f x) (sort_key f ys) = filter (\<lambda>x. f k = f x) xs"
    by (simp only: filter_key_distinct [OF ds k] filter_key_distinct [OF assms(2) kx])
qed

lemma flat_dump_eq_iff:
  assumes a: "flat_record a" and b: "flat_record b"
  shows "(json_of True (PDict a) = json_of True (PDict b)) = (map_of a = map_of b)"
proof -
  let ?g = "\<lambda>kv. (fst kv, json_of True (snd kv))"
  have da: "distinct (map fst a)" and db: "distinct (map fst b)"
    and sa: "\<And>x. x \<in> set a \<Longrightarrow> is_scalar (snd x)"
    and sb: "\<And>x. x \<in> set b \<Longrightarrow> is_scalar (snd x)"
    using a b by (simp_all add: flat_record_def list_all_iff)
  have sets: "(map_of a = map_of b) = (set a = set b)"
    by (rule map_of_inject_set [OF da db])
  have inj: "\<And>x y. x \<in> set a \<union> set b \<Longrightarrow> y \<in> set a \<union> set b \<Longrightarrow> ?g x = ?g y \<Longrightarrow> x = y"
  proof -
    fix x y assume "x \<in> set a \<union> set b" "y \<in> set a \<union> set b" "?g x = ?g y"
    then have "fst x = fst y" "json_of True (snd x) = json_of True (snd y)"
      and "x \<in> set a \<or> x \<in> set b" and "y \<in> set a \<or> y \<in> set b"
      by simp_all
    moreover from this(3) have "is_scalar (snd x)"
      using sa [of x] sb [of x] by blast
    moreover from calculation(4) have "is_scalar (snd y)"
      using sa [of y] sb [of y] by blast
    ultimately show "x = y"
      using scalar_json_inj [of "snd x" "snd y"] by (simp add: prod_eq_iff)
  qed
  have enc: "(json_of True (PDict a) = json_of True (PDict b)) =
             (sort_key fst (map ?g a) = sort_key fst (map ?g b))"
    by simp
  show ?thesis
  proof
    assume "json_of True (PDict a) = json_of True (PDict b)"
    then have "sort_key fst (map ?g a) = sort_key fst (map ?g b)"
      by (simp only: enc)
    then have "set (sort_key fst (map ?g a)) = set (sort_key fst (map ?g b))"
      by (rule arg_cong)
    then have img: "?g ` set a = ?g ` set b"
      by simp
    have "set a = set b"
    proof (rule set_eqI)
      fix x
      show "(x \<in> set a) = (x \<in> set b)"
      proof
        assume xa: "x \<in> set a"
        then have "?g x \<in> ?g ` set b" using img by blast
        then obtain y where "y \<in> set b" and "?g x = ?g y" by blast
        with xa inj [of x y] show "x \<in> set b" by simp
      next
        assume xb: "x \<in> set b"
        then have "?g x \<in> ?g ` set a" using img by blast
        then obtain y where "y \<in> set a" and "?g x = ?g y" by blast
        with xb inj [of x y] show "x \<in> set a" by simp
      qed
    qed
    then show "map_of a = map_of b"
      by (simp only: sets)
  next
    assume "map_of a = map_of b"
    then have "set a = set b"
      by (simp only: sets)
    moreover have "distinct a" "distinct b"
      using da db by (simp_all add: distinct_map)
    ultimately have "mset a = mset b"
      by (simp add: set_eq_iff_mset_eq_distinct)
    then have m: "mset (map ?g a) = mset (map ?g b)"
      by simp
    have "distinct (map fst (map ?g a))"
      using da by (simp add: comp_def)
    with m have "sort_key fst (map ?g a) = sort_key fst (map ?g b)"
      by (rule sort_key_distinct_unique)
    then show "json_of True (PDict a) = json_of True (PDict b)"
      by (simp only: enc)
  qed
qed

lemma valid_set_iter_remdups: "valid_set_iter remdups"
  by (simp add: valid_set_iter_def)

lemma valid_set_iter_last_added_first: "valid_set_iter last_added_first"
  by (simp add: valid_set_iter_def last_added_first_def)

lemma timeline_deduplicate_dumps:
  assumes v: "valid_set_iter set_iter" and w: "list_all wf_pyval T"
    and r: "timeline_deduplicate set_iter T = Inr D"
  shows "\<exists>dumps L. map (json_encode False True) T = map Some dumps \<and>
           D = map json_decode L \<and> map (json_encode False True) D = map Some L \<and>
           distinct L \<and> set L = set dumps \<and> list_all wf_pyval D"
proof -
  from r obtain dumps where d: "all_some (map (json_encode False True) T) = Some dumps"
    and D: "D = map json_decode (set_iter dumps)"
    by (auto simp: timeline_deduplicate_def split: option.splits)
  let ?L = "set_iter dumps"
  have sL: "set ?L = set dumps" and dL: "distinct ?L"
    using v by (simp_all add: valid_set_iter_def)
  have canon: "json_encode False True (json_decode j) = Some j \<and> wf_pyval (json_decode j)"
    if "j \<in> set ?L" for j
  proof -
    from that sL have "j \<in> set dumps" by simp
    from all_some_elem [OF d this] obtain x
      where "x \<in> set T" "json_encode False True x = Some j"
      by blast
    with w show ?thesis
      using dump_canonical [of x j] by (simp add: list_all_iff)
  qed
  have "map (json_encode False True) D = map (\<lambda>j. json_encode False True (json_decode j)) ?L"
    by (simp add: D comp_def)
  also have "\<dots> = map Some ?L"
    by (rule map_cong) (simp_all add: canon)
  finally have enc: "map (json_encode False True) D = map Some ?L" .
  have "list_all wf_pyval D"
    using canon by (simp add: D list_all_iff)
  with all_some_Some [OF d] D enc dL sL show ?thesis by blast
qed

lemma timeline_deduplicate_classes:
  assumes "valid_set_iter set_iter" and "list_all wf_pyval T"
    and "timeline_deduplicate set_iter T = Inr D"
  shows "distinct (map (json_encode False True) D) \<and>
         set (map (json_encode False True) D) = set (map (json_encode False True) T)"
proof -
  from timeline_deduplicate_dumps [OF assms] obtain dumps L
    where T: "map (json_encode False True) T = map Some dumps"
      and enc: "map (json_encode False True) D = map Some L"
      and L: "distinct L" "set L = set dumps"
    by blast
  have "distinct (map Some L)"
    using L(1) by (simp add: distinct_map)
  moreover have "set (map Some L) = set (map Some dumps)"
    using L(2) by simp
  ultimately show ?thesis
    by (simp only: enc T simp_thms)
qed

lemma timeline_deduplicate_again:
  assumes "valid_set_iter set_iter" and "list_all wf_pyval T"
    and "timeline_deduplicate set_iter T = Inr D"
  shows "\<exists>D2. timeline_deduplicate set_iter D = Inr D2 \<and> mset D2 = mset D"
proof -
  from timeline_deduplicate_dumps [OF assms] obtain dumps L
    where D: "D = map json_decode L"
      and enc: "map (json_encode False True) D = map Some L"
      and L: "distinct L"
    by blast
  have second: "timeline_deduplicate set_iter D = Inr (map json_decode (set_iter L))"
    by (simp add: timeline_deduplicate_def enc all_some_map_Some)
  have "set (set_iter L) = set L" "distinct (set_iter L)"
    using assms(1) by (simp_all add: valid_set_iter_def)
  then have "mset (set_iter L) = mset L"
    using L by (simp add: set_eq_iff_mset_eq_distinct)
  then have "mset (map json_decode (set_iter L)) = mset D"
    by (simp add: D)
  with second show ?thesis by blast
qed

lemma flat_encode:
  "flat_record a \<Longrightarrow> json_encode False True (PDict a) = Some (json_of True (PDict a))"
  by (rule json_encode_native) (simp add: flat_record_def list_all_iff scalar_native)

lemma scalar_decode: "is_scalar v \<Longrightarrow> json_decode (json_of True v) = v"
  by (cases v) simp_all

lemma flat_decode:
  assumes "flat_record a"
  shows "json_decode (json_of True (PDict a)) = PDict (sort_key fst a)"
proof -
  let ?g = "\<lambda>kv. (fst kv, json_of True (snd kv))"
  let ?h = "\<lambda>kj. (fst kj, json_decode (snd kj))"
  have da: "distinct (map fst a)" and sa: "\<And>x. x \<in> set a \<Longrightarrow> is_scalar (snd x)"
    using assms by (simp_all add: flat_record_def list_all_iff)
  have S: "sort_key fst (map ?g a) = map ?g (sort_key fst a)"
    by (simp add: sort_key_map)
  have "map (\<lambda>kv. ?h (?g kv)) (sort_key fst a) = sort_key fst a"
    by (rule map_idI) (simp add: sa scalar_decode)
  then have "map ?h (map ?g (sort_key fst a)) = sort_key fst a"
    by (simp only: map_map comp_def)
  then have K: "map ?h (sort_key fst (map ?g a)) = sort_key fst a"
    by (simp only: S)
  have "mset (map fst (sort_key fst a)) = mset (map fst a)"
    by simp
  then have "distinct (map fst (sort_key fst a)) = distinct (map fst a)"
    by (rule mset_eq_imp_distinct_iff)
  then have ds: "distinct (map fst (sort_key fst a))"
    using da by simp
  have "json_decode (json_of True (PDict a)) =
          PDict (dict_of_items (map ?h (sort_key fst (map ?g a))))"
    by (simp only: json_of.simps json_decode.simps zip_fst_decode if_True)
  then show ?thesis
    by (simp only: K dict_of_items_distinct [OF ds])
qed

lemma map_of_sort_key:
  assumes "distinct (map fst a)"
  shows "map_of (sort_key fst a) = map_of a"
proof -
  have "mset (map fst (sort_key fst a)) = mset (map fst a)"
    by simp
  then have "distinct (map fst (sort_key fst a)) = distinct (map fst a)"
    by (rule mset_eq_imp_distinct_iff)
  then have "distinct (map fst (sort_key fst a))"
    using assms by simp
  from map_of_inject_set [OF this assms] show ?thesis by simp
qed

lemma timeline_deduplicate_survivor:
  assumes v: "valid_set_iter set_iter" and w: "list_all wf_pyval T"
    and r: "timeline_deduplicate set_iter T = Inr D"
    and m: "PDict a \<in> set T" and a: "flat_record a"
  shows "length (filter (\<lambda>y. case y of PDict b \<Rightarrow> map_of b = map_of a | _ \<Rightarrow> False) D) = 1"
proof -
  let ?P = "\<lambda>y. case y of PDict b \<Rightarrow> map_of b = map_of a | _ \<Rightarrow> False"
  let ?ja = "json_of True (PDict a)"
  from timeline_deduplicate_dumps [OF v w r] obtain dumps L
    where T: "map (json_encode False True) T = map Some dumps"
      and D: "D = map json_decode L"
      and enc: "map (json_encode False True) D = map Some L"
      and L: "distinct L" "set L = set dumps"
      and wD: "list_all wf_pyval D"
    by blast
  have da: "distinct (map fst a)" and sa: "\<And>x. x \<in> set a \<Longrightarrow> is_scalar (snd x)"
    using a by (simp_all add: flat_record_def list_all_iff)
  have "json_encode False True (PDict a) \<in> set (map (json_encode False True) T)"
    using m by (simp only: set_map) (rule imageI)
  then have "Some ?ja \<in> set (map Some dumps)"
    by (simp only: T flat_encode [OF a])
  then have ja: "?ja \<in> set L"
    using L(2) by auto
  have same: "?P (json_decode j) = (j = ?ja)" if j: "j \<in> set L" for j
  proof
    assume "j = ?ja"
    then show "?P (json_decode j)"
      by (simp only: flat_decode [OF a] pyval.case map_of_sort_key [OF da])
  next
    assume P: "?P (json_decode j)"
    then obtain b where b: "json_decode j = PDict b" and mb: "map_of b = map_of a"
      by (cases "json_decode j") simp_all
    have "json_decode j \<in> set D"
      using j by (simp add: D)
    moreover have "\<forall>x \<in> set D. wf_pyval x"
      using wD by (simp only: list_all_iff)
    ultimately have "wf_pyval (json_decode j)"
      by blast
    then have "wf_pyval (PDict b)"
      by (simp only: b)
    then have db: "distinct (map fst b)"
      by simp
    have "set b = set a"
      using map_of_inject_set [OF db da] mb by simp
    then have fb: "flat_record b"
      using db sa by (simp add: flat_record_def list_all_iff)
    have "map (\<lambda>y. json_encode False True (json_decode y)) L = map Some L"
      using enc by (simp add: D comp_def)
    then have "json_encode False True (json_decode j) = Some j"
      using j by (simp only: map_eq_conv)
    then have "Some j = Some (json_of True (PDict b))"
      by (simp only: b flat_encode [OF fb])
    then show "j = ?ja"
      using flat_dump_eq_iff [OF fb a] mb by simp
  qed
  have "filter ?P D = map json_decode (filter (\<lambda>j. ?P (json_decode j)) L)"
    by (simp add: D filter_map comp_def)
  also have "filter (\<lambda>j. ?P (json_decode j)) L = filter (\<lambda>j. j = ?ja) L"
    by (rule filter_cong) (simp_all only: same)
  finally have "length (filter ?P D) = length (filter (\<lambda>j. j = ?ja) L)"
    by simp
  moreover have "distinct (filter (\<lambda>j. j = ?ja) L)"
    using L(1) by simp
  moreover have "set (filter (\<lambda>j. j = ?ja) L) = {?ja}"
    using ja by auto
  ultimately show ?thesis
    using distinct_card [of "filter (\<lambda>j. j = ?ja) L"] by simp
qed

lemma flat_duplicates:
  assumes "flat_record a" and "flat_record b"
  shows "(json_encode False True (PDict a) = json_encode False True (PDict b)) =
         (map_of a = map_of b)"
  using flat_dump_eq_iff [OF assms] by (simp only: flat_encode [OF assms(1)] flat_encode [OF assms(2)] option.inject)

lemma timeline_deduplicate_returns:
  assumes "list_all json_native T"
  shows "\<exists>D. timeline_deduplicate set_iter T = Inr D"
  using timeline_deduplicate_native [OF assms] by blast

text \<open>
  Claim C6, as amended. Whatever the order in which Python iterates a set, let
  \<open>timeline_deduplicate\<close> return \<open>D\<close> on the timeline \<open>T\<close>, as it does when \<^verbatim>\<open>json.dumps\<close>
  can serialise every entry. Then \<open>D\<close> is no longer than \<open>T\<close>. Two entries are duplicates
  when their dumps with sorted keys are equal: the dumps of \<open>D\<close> are pairwise different
  and are those of \<open>T\<close>, so of every class of duplicates in \<open>T\<close> exactly one entry is in
  \<open>D\<close>. For flat records, duplicates are the entries that map the same fields to the
  same values, in whatever order the fields come, the timestamp being a field like any
  other; and for every flat record of \<open>T\<close>, exactly one entry of \<open>D\<close> has its fields and
  values. Applied to \<open>D\<close>, \<open>timeline_deduplicate\<close> returns the entries of \<open>D\<close>, each as
  often, possibly in another order. It returns on every timeline of values that JSON
  represents without loss.
\<close>

theorem timeline_deduplicate_properties:
  assumes "valid_set_iter set_iter" and "list_all wf_pyval T"
    and "timeline_deduplicate set_iter T = Inr D"
  shows "length D \<le> length T \<and>
         distinct (map (json_encode False True) D) \<and>
         set (map (json_encode False True) D) = set (map (json_encode False True) T) \<and>
         (\<forall>a b. flat_record a \<and> flat_record b \<longrightarrow>
            (json_encode False True (PDict a) = json_encode False True (PDict b)) =
            (map_of a = map_of b)) \<and>
         (\<forall>a. PDict a \<in> set T \<and> flat_record a \<longrightarrow>
            length (filter (\<lambda>y. case y of PDict b \<Rightarrow> map_of b = map_of a | _ \<Rightarrow> False) D) = 1) \<and>
         (\<exists>D2. timeline_deduplicate set_iter D = Inr D2 \<and> mset D2 = mset D) \<and>
         (list_all json_native T' \<longrightarrow> (\<exists>D'. timeline_deduplicate set_iter T' = Inr D'))"
  using timeline_deduplicate_length [OF assms(1,3)]
        timeline_deduplicate_classes [OF assms]
        timeline_deduplicate_again [OF assms]
        timeline_deduplicate_survivor [OF assms]
        flat_duplicates
        timeline_deduplicate_returns [of T' set_iter]
  by (intro conjI allI impI) (simp_all only:)

text \<open>
  Three entries, the first and the last with the same fields in different orders and
  another entry between them: the two are collapsed to one, and deduplicating the result
  again returns the same two entries. Here a set lists its elements in the order in
  which each was last added.
\<close>

theorem timeline_deduplicate_properties_witness:
  "timeline_deduplicate remdups
     [PDict [(''timestamp'', PNone), (''event'', PStr ''contact_added'')],
      PDict [(''timestamp'', PStr ''2023-01-02''), (''event'', PStr ''contact_added'')],
      PDict [(''event'', PStr ''contact_added''), (''timestamp'', PNone)]] =
     Inr [PDict [(''event'', PStr ''contact_added''), (''timestamp'', PStr ''2023-01-02'')],
          PDict [(''event'', PStr ''contact_added''), (''timestamp'', PNone)]] \<and>
   length (filter (\<lambda>y. case y of
                         PDict b \<Rightarrow>
                           map_of b =
                           map_of [(''timestamp'', PNone), (''event'', PStr ''contact_added'')]
                       | _ \<Rightarrow> False)
     [PDict [(''event'', PStr ''contact_added''), (''timestamp'', PStr ''2023-01-02'')],
      PDict [(''event'', PStr ''contact_added''), (''timestamp'', PNone)]]) = 1 \<and>
   (\<exists>D2. timeline_deduplicate remdups
            [PDict [(''event'', PStr ''contact_added''),
                    (''timestamp'', PStr ''2023-01-02'')],
             PDict [(''event'', PStr ''contact_added''), (''timestamp'', PNone)]] = Inr D2 \<and>
          mset D2 =
            mset [PDict [(''event'', PStr ''contact_added''),
                         (''timestamp'', PStr ''2023-01-02'')],
                  PDict [(''event'', PStr ''contact_added''), (''timestamp'', PNone)]])"
proof -
  let ?a = "[(''timestamp'', PNone), (''event'', PStr ''contact_added'')]"
  let ?b = "[(''timestamp'', PStr ''2023-01-02''), (''event'', PStr ''contact_added'')]"
  let ?c = "[(''event'', PStr ''contact_added''), (''timestamp'', PNone)]"
  let ?d = "[(''event'', PStr ''contact_added''), (''timestamp'', PStr ''2023-01-02'')]"
  have w: "list_all wf_pyval [PDict ?a, PDict ?b, PDict ?c]"
    by simp
  have e: "timeline_deduplicate remdups [PDict ?a, PDict ?b, PDict ?c] =
             Inr [PDict ?d, PDict ?c]"
    by (simp add: timeline_deduplicate_def dict_of_items_def)
  have f: "PDict ?a \<in> set [PDict ?a, PDict ?b, PDict ?c] \<and> flat_record ?a"
    by (simp add: flat_record_def)
  note p = timeline_deduplicate_properties [OF valid_set_iter_remdups w e]
  note survivor = p [THEN conjunct2, THEN conjunct2, THEN conjunct2, THEN conjunct2,
    THEN conjunct1, rule_format, OF f]
  note again = p [THEN conjunct2, THEN conjunct2, THEN conjunct2, THEN conjunct2,
    THEN conjunct2, THEN conjunct1]
  from e survivor again show ?thesis
    by (intro conjI)
qed

text \<open>
  Claim C6 as stated takes the two results to be equal as sequences. When a set is
  iterated with the element added last coming first, which Python allows, deduplicating
  two distinct entries returns them in one order and deduplicating that result returns
  them in the other.
\<close>

theorem timeline_deduplicate_order_counterexample:
  "valid_set_iter last_added_first \<and>
   timeline_deduplicate last_added_first
     [PDict [(''event'', PStr ''a'')], PDict [(''event'', PStr ''b'')]] =
     Inr [PDict [(''event'', PStr ''b'')], PDict [(''event'', PStr ''a'')]] \<and>
   timeline_deduplicate last_added_first
     [PDict [(''event'', PStr ''b'')], PDict [(''event'', PStr ''a'')]] =
     Inr [PDict [(''event'', PStr ''a'')], PDict [(''event'', PStr ''b'')]] \<and>
   [PDict [(''event'', PStr ''a'')], PDict [(''event'', PStr ''b'')]] \<noteq>
     [PDict [(''event'', PStr ''b'')], PDict [(''event'', PStr ''a'')]]"
  by (simp add: valid_set_iter_last_added_first timeline_deduplicate_def last_added_first_def
        dict_of_items_def)

end
